theory Spec2Isabelle
  imports Main "HOL-Library.Char_ord" "HOL-Library.List_Lexorder" "HOL-Library.Sublist"
begin

section \<open>Resumable uploads: the chunk tracking and merge logic of \<open>ResumableFile\<close>\<close>

text \<open>
  The development embeds \<^verbatim>\<open>admin_async_upload/files.py\<close>. Python strings are
  modelled as \<open>string\<close>, a character being a code point below 256; byte strings are
  modelled the same way. The order on strings is the lexicographic order on code
  points, which is the order Python's \<^verbatim>\<open>sorted\<close> uses.
\<close>

subsection \<open>Errors\<close>

text \<open>
  Every exception the class can raise is a value. \<open>InvalidFilename\<close> is
  \<^verbatim>\<open>Exception('Invalid filename')\<close>, \<open>IncompleteUpload\<close> is
  \<^verbatim>\<open>Exception('Chunk(s) still missing')\<close>, \<open>ValueError\<close> is what \<^verbatim>\<open>int()\<close>
  raises, and the last three stand for whatever the chunk storage raises from
  \<^verbatim>\<open>open(..).read()\<close>, from its other operations, and what the persistent storage
  raises from \<^verbatim>\<open>save\<close>.
\<close>

datatype error =
    InvalidFilename
  | IncompleteUpload
  | ValueError
  | ChunkReadFailure
  | ChunkStoreFailure
  | PersistentStoreFailure

subsection \<open>Request parameters\<close>

text \<open>
  \<^verbatim>\<open>self.params\<close> is the parameter bag of the request; the four keys the class
  reads are all present and carry strings.
\<close>

record params =
  resumableFilename :: string
  resumableTotalSize :: string
  resumableChunkNumber :: string
  resumableCurrentChunkSize :: string

subsection \<open>Python built-ins used by the class\<close>

text \<open>\<^verbatim>\<open>str.zfill(width)\<close>: zeros go after a leading sign.\<close>

definition zfill :: "nat \<Rightarrow> string \<Rightarrow> string" where
  "zfill width s =
     (if width \<le> length s then s
      else (case s of
              [] \<Rightarrow> replicate width CHR ''0''
            | c # cs \<Rightarrow>
                if c = CHR ''+'' \<or> c = CHR ''-''
                then c # replicate (width - length s) CHR ''0'' @ cs
                else replicate (width - length s) CHR ''0'' @ s))"

text \<open>
  \<^verbatim>\<open>int(s)\<close> on a string, base 10: surrounding whitespace is stripped, one sign is
  allowed, and single underscores may separate digits.
\<close>

definition py_isspace :: "char \<Rightarrow> bool" where
  "py_isspace c = ((of_char c :: nat) \<in> {9, 10, 11, 12, 13, 32, 133, 160})"

definition py_isdigit :: "char \<Rightarrow> bool" where
  "py_isdigit c = (48 \<le> (of_char c :: nat) \<and> (of_char c :: nat) \<le> 57)"

definition digit_val :: "char \<Rightarrow> nat" where
  "digit_val c = of_char c - 48"

fun digits_ok :: "string \<Rightarrow> bool" where
  "digits_ok [] = False"
| "digits_ok [c] = py_isdigit c"
| "digits_ok (c # d # cs) =
     (if py_isdigit c then
        (if d = CHR ''_'' then digits_ok cs else digits_ok (d # cs))
      else False)"

definition digits_val :: "string \<Rightarrow> nat" where
  "digits_val s = foldl (\<lambda>acc c. if c = CHR ''_'' then acc else 10 * acc + digit_val c) 0 s"

definition py_strip :: "string \<Rightarrow> string" where
  "py_strip s = rev (dropWhile py_isspace (rev (dropWhile py_isspace s)))"

definition py_int :: "string \<Rightarrow> error + int" where
  "py_int s =
     (case py_strip s of
        [] \<Rightarrow> Inl ValueError
      | c # cs \<Rightarrow>
          if c = CHR ''-'' then (if digits_ok cs then Inr (- int (digits_val cs)) else Inl ValueError)
          else if c = CHR ''+'' then (if digits_ok cs then Inr (int (digits_val cs)) else Inl ValueError)
          else (if digits_ok (c # cs) then Inr (int (digits_val (c # cs))) else Inl ValueError))"

text \<open>
  \<^verbatim>\<open>str(n)\<close> for a natural number: the decimal numeral a client puts on the wire
  for an integer parameter.
\<close>

definition digit_char :: "nat \<Rightarrow> char" where
  "digit_char d = char_of (48 + d)"

fun decimal :: "nat \<Rightarrow> string" where
  "decimal n = (if n < 10 then [digit_char n] else decimal (n div 10) @ [digit_char (n mod 10)])"

declare decimal.simps [simp del]

subsection \<open>\<^verbatim>\<open>fnmatch.fnmatch\<close>\<close>

text \<open>
  The matcher of the Python standard library (CPython 3.11, on a POSIX system, where
  \<^verbatim>\<open>os.path.normcase\<close> is the identity). \<^verbatim>\<open>translate\<close> turns the pattern into a
  regular expression: \<^verbatim>\<open>*\<close> matches any string, \<^verbatim>\<open>?\<close> any one character, a
  bracket expression a character class, and a \<^verbatim>\<open>[\<close> with no closing bracket is a
  literal. The class keeps the text that \<^verbatim>\<open>translate\<close> puts between the brackets of the
  regular expression, and \<open>re_class\<close> reads it as the \<^verbatim>\<open>re\<close> module does.
\<close>

datatype glob = Star | AnyChar | Lit char | Never | Class string

text \<open>Position of the bracket that closes the expression, in the text after \<^verbatim>\<open>[\<close>.\<close>

fun find_close :: "string \<Rightarrow> nat option" where
  "find_close [] = None"
| "find_close (c # cs) = (if c = CHR '']'' then Some 0 else map_option Suc (find_close cs))"

definition class_end :: "string \<Rightarrow> nat option" where
  "class_end p =
     (let j1 = (if 0 < length p \<and> p ! 0 = CHR ''!'' then 1 else 0);
          j2 = (if j1 < length p \<and> p ! j1 = CHR '']'' then j1 + 1 else j1)
      in map_option (\<lambda>k. j2 + k) (find_close (drop j2 p)))"

text \<open>
  Splitting the class text at the hyphens that make ranges: after such a hyphen the
  search resumes three positions on, so the next two characters are not looked at.
\<close>

fun chunks_from :: "string \<Rightarrow> string \<Rightarrow> string list" where
  "chunks_from acc [] = [acc]"
| "chunks_from acc (c # cs) =
     (if c = CHR ''-'' then acc # chunks_from (take 2 cs) (drop 2 cs)
      else chunks_from (acc @ [c]) cs)"

definition range_chunks :: "string \<Rightarrow> string list" where
  "range_chunks stuff =
     (let n0 = (if 0 < length stuff \<and> stuff ! 0 = CHR ''!'' then 2 else 1);
          cs = chunks_from (take n0 stuff) (drop n0 stuff)
      in if last cs = [] \<and> 2 \<le> length cs
         then butlast (butlast cs) @ [last (butlast cs) @ ''-'']
         else cs)"

text \<open>Ranges whose lower end is above the upper end are removed, from the right.\<close>

fun drop_empty :: "string list \<Rightarrow> string list" where
  "drop_empty [] = []"
| "drop_empty [c] = [c]"
| "drop_empty (c # d # ds) =
     (case drop_empty (d # ds) of
        [] \<Rightarrow> [c]
      | e # es \<Rightarrow> if c \<noteq> [] \<and> e \<noteq> [] \<and> hd e < last c then (butlast c @ tl e) # es else c # e # es)"

definition re_escape_in :: "char set \<Rightarrow> string \<Rightarrow> string" where
  "re_escape_in S s = concat (map (\<lambda>c. if c \<in> S then [CHR 0x5C, c] else [c]) s)"

fun join_hyphen :: "string list \<Rightarrow> string" where
  "join_hyphen [] = []"
| "join_hyphen [c] = c"
| "join_hyphen (c # d # ds) = c @ ''-'' @ join_hyphen (d # ds)"

definition class_text :: "string \<Rightarrow> glob" where
  "class_text stuff =
     (let s1 = (if CHR ''-'' \<notin> set stuff then re_escape_in {CHR 0x5C} stuff
                else join_hyphen (map (re_escape_in {CHR 0x5C, CHR ''-''})
                                      (drop_empty (range_chunks stuff))));
          s2 = re_escape_in {CHR ''&'', CHR ''~'', CHR ''|''} s1
      in if s2 = [] then Never
         else if s2 = ''!'' then AnyChar
         else if hd s2 = CHR ''!'' then Class (CHR ''^'' # tl s2)
         else if hd s2 = CHR ''^'' \<or> hd s2 = CHR ''['' then Class (CHR 0x5C # s2)
         else Class s2)"

fun translate :: "string \<Rightarrow> glob list" where
  "translate [] = []"
| "translate (c # p) =
     (if c = CHR ''*'' then Star # translate p
      else if c = CHR ''?'' then AnyChar # translate p
      else if c = CHR ''['' then
        (case class_end p of
           None \<Rightarrow> Lit CHR ''['' # translate p
         | Some j \<Rightarrow> class_text (take j p) # translate (drop (Suc j) p))
      else Lit c # translate p)"

text \<open>
  The text of a character class of a regular expression, as \<^verbatim>\<open>re\<close> reads it: a
  backslash makes the next character an ordinary one, and a hyphen between two
  members makes a range.
\<close>

fun re_atoms :: "string \<Rightarrow> (char \<times> bool) list" where
  "re_atoms [] = []"
| "re_atoms [c] = [(c, False)]"
| "re_atoms (c # d # cs) =
     (if c = CHR 0x5C then (d, True) # re_atoms cs else (c, False) # re_atoms (d # cs))"

fun re_members :: "(char \<times> bool) list \<Rightarrow> char \<Rightarrow> bool" where
  "re_members [] x = False"
| "re_members [a] x = (x = fst a)"
| "re_members (a # b # rest) x =
     (if b = (CHR ''-'', False) then
        (case rest of
           [] \<Rightarrow> x = fst a \<or> x = CHR ''-''
         | h # rest' \<Rightarrow> (fst a \<le> x \<and> x \<le> fst h) \<or> re_members rest' x)
      else x = fst a \<or> re_members (b # rest) x)"

definition re_class :: "string \<Rightarrow> char \<Rightarrow> bool" where
  "re_class s x =
     (case s of
        [] \<Rightarrow> False
      | c # cs \<Rightarrow> if c = CHR ''^'' then \<not> re_members (re_atoms cs) x
                  else re_members (re_atoms s) x)"

fun glob_match :: "glob list \<Rightarrow> string \<Rightarrow> bool" where
  "glob_match [] s = (s = [])"
| "glob_match (Star # gs) [] = glob_match gs []"
| "glob_match (Star # gs) (x # xs) = (glob_match gs (x # xs) \<or> glob_match (Star # gs) xs)"
| "glob_match (AnyChar # gs) [] = False"
| "glob_match (AnyChar # gs) (x # xs) = glob_match gs xs"
| "glob_match (Lit c # gs) [] = False"
| "glob_match (Lit c # gs) (x # xs) = (c = x \<and> glob_match gs xs)"
| "glob_match (Never # gs) s = False"
| "glob_match (Class t # gs) [] = False"
| "glob_match (Class t # gs) (x # xs) = (re_class t x \<and> glob_match gs xs)"

definition fnmatch :: "string \<Rightarrow> string \<Rightarrow> bool" where
  "fnmatch name pat = glob_match (translate pat) name"

subsection \<open>The chunk storage\<close>

text \<open>
  Modelled from the spec: the chunk storage object is built by
  \<^verbatim>\<open>admin_async_upload.storage.ResumableStorage\<close>, which is not part of the sources at
  hand. The model follows the capabilities the specification lists for it: one flat
  namespace of named byte strings with \<^verbatim>\<open>exists\<close>, \<^verbatim>\<open>size\<close> (failing on an absent
  name), \<^verbatim>\<open>save\<close> (the new bytes replace what the name held), \<^verbatim>\<open>delete\<close> (no
  error on an absent name), \<^verbatim>\<open>open(..).read()\<close> and \<^verbatim>\<open>listdir\<close>.

  A save or a read may fail. The two fault lists script the outcome of the coming
  attempts, one entry per attempt, \<open>True\<close> meaning that the attempt raises; an
  exhausted list means success. A failing save is atomic, it stores nothing, as the
  specification assumes of single-object operations of the store.
\<close>

type_synonym bytes = string

record chunk_storage =
  files :: "(string \<times> bytes) list"
  save_faults :: "bool list"
  read_faults :: "bool list"

definition storage_exists :: "chunk_storage \<Rightarrow> string \<Rightarrow> bool" where
  "storage_exists cs name = (map_of (files cs) name \<noteq> None)"

definition storage_size :: "chunk_storage \<Rightarrow> string \<Rightarrow> error + nat" where
  "storage_size cs name =
     (case map_of (files cs) name of
        None \<Rightarrow> Inl ChunkStoreFailure
      | Some b \<Rightarrow> Inr (length b))"

definition storage_delete :: "chunk_storage \<Rightarrow> string \<Rightarrow> chunk_storage" where
  "storage_delete cs name = cs\<lparr>files := filter (\<lambda>kv. fst kv \<noteq> name) (files cs)\<rparr>"

definition storage_save :: "chunk_storage \<Rightarrow> string \<Rightarrow> bytes \<Rightarrow> (error + string) \<times> chunk_storage" where
  "storage_save cs name b =
     (case save_faults cs of
        True # fs \<Rightarrow> (Inl ChunkStoreFailure, cs\<lparr>save_faults := fs\<rparr>)
      | _ \<Rightarrow> (Inr name,
              cs\<lparr>files := (name, b) # filter (\<lambda>kv. fst kv \<noteq> name) (files cs),
                 save_faults := tl (save_faults cs)\<rparr>))"

definition storage_read :: "chunk_storage \<Rightarrow> string \<Rightarrow> (error + bytes) \<times> chunk_storage" where
  "storage_read cs name =
     (case read_faults cs of
        True # fs \<Rightarrow> (Inl ChunkReadFailure, cs\<lparr>read_faults := fs\<rparr>)
      | _ \<Rightarrow> ((case map_of (files cs) name of
                 None \<Rightarrow> Inl ChunkReadFailure
               | Some b \<Rightarrow> Inr b),
              cs\<lparr>read_faults := tl (read_faults cs)\<rparr>))"

definition storage_listdir :: "chunk_storage \<Rightarrow> string list" where
  "storage_listdir cs = map fst (files cs)"

subsection \<open>The temporary file\<close>

text \<open>
  \<^verbatim>\<open>tempfile.NamedTemporaryFile("w+b")\<close>: a byte content and the position of the
  handle. A write puts the bytes at the position and moves the position behind them;
  a read returns what lies between the position and the end.
\<close>

record tempfile =
  content :: bytes
  pos :: nat

definition new_tempfile :: tempfile where
  "new_tempfile = \<lparr>content = [], pos = 0\<rparr>"

definition tf_write :: "tempfile \<Rightarrow> bytes \<Rightarrow> tempfile" where
  "tf_write f b =
     \<lparr>content = take (pos f) (content f) @ b @ drop (pos f + length b) (content f),
      pos = pos f + length b\<rparr>"

definition tf_read :: "tempfile \<Rightarrow> bytes" where
  "tf_read f = drop (pos f) (content f)"

subsection \<open>\<^verbatim>\<open>ResumableFile\<close>\<close>

definition chunk_suffix :: string where
  "chunk_suffix = ''_part_''"

definition filename :: "params \<Rightarrow> error + string" where
  "filename p =
     (if CHR ''/'' \<in> set (resumableFilename p) then Inl InvalidFilename
      else Inr (resumableTotalSize p @ ''_'' @ resumableFilename p))"

definition current_chunk_name :: "params \<Rightarrow> error + string" where
  "current_chunk_name p =
     (case filename p of
        Inl e \<Rightarrow> Inl e
      | Inr fn \<Rightarrow> Inr (fn @ chunk_suffix @ zfill 4 (resumableChunkNumber p)))"

text \<open>
  \<^verbatim>\<open>chunk_exists\<close>: the \<^verbatim>\<open>and\<close> evaluates its right operand, and with it
  \<^verbatim>\<open>int(..)\<close>, only when the chunk exists.
\<close>

definition chunk_exists :: "params \<Rightarrow> chunk_storage \<Rightarrow> error + bool" where
  "chunk_exists p cs =
     (case current_chunk_name p of
        Inl e \<Rightarrow> Inl e
      | Inr name \<Rightarrow>
          if storage_exists cs name then
            (case storage_size cs name of
               Inl e \<Rightarrow> Inl e
             | Inr s \<Rightarrow>
                 (case py_int (resumableCurrentChunkSize p) of
                    Inl e \<Rightarrow> Inl e
                  | Inr d \<Rightarrow> Inr (int s = d)))
          else Inr False)"

text \<open>
  \<^verbatim>\<open>chunk_names\<close>: the listing is taken and sorted first; the pattern, and with it
  \<^verbatim>\<open>self.filename\<close>, is evaluated once for every listed file.
\<close>

fun chunk_names_loop :: "params \<Rightarrow> string list \<Rightarrow> string list \<Rightarrow> error + string list" where
  "chunk_names_loop p [] chunks = Inr chunks"
| "chunk_names_loop p (file # rest) chunks =
     (case filename p of
        Inl e \<Rightarrow> Inl e
      | Inr fn \<Rightarrow>
          if fnmatch file (fn @ chunk_suffix @ ''*'')
          then chunk_names_loop p rest (chunks @ [file])
          else chunk_names_loop p rest chunks)"

definition chunk_names :: "params \<Rightarrow> chunk_storage \<Rightarrow> error + string list" where
  "chunk_names p cs = chunk_names_loop p (sort (storage_listdir cs)) []"

fun size_loop :: "chunk_storage \<Rightarrow> string list \<Rightarrow> nat \<Rightarrow> error + nat" where
  "size_loop cs [] sz = Inr sz"
| "size_loop cs (chunk # rest) sz =
     (case storage_size cs chunk of
        Inl e \<Rightarrow> Inl e
      | Inr s \<Rightarrow> size_loop cs rest (sz + s))"

definition size_chunks :: "params \<Rightarrow> chunk_storage \<Rightarrow> error + nat" where
  "size_chunks p cs =
     (case chunk_names p cs of
        Inl e \<Rightarrow> Inl e
      | Inr names \<Rightarrow> size_loop cs names 0)"

definition is_complete :: "params \<Rightarrow> chunk_storage \<Rightarrow> error + bool" where
  "is_complete p cs =
     (case py_int (resumableTotalSize p) of
        Inl e \<Rightarrow> Inl e
      | Inr declared \<Rightarrow>
          (case size_chunks p cs of
             Inl e \<Rightarrow> Inl e
           | Inr s \<Rightarrow> Inr (declared = int s)))"

text \<open>
  One pass of the loop of \<^verbatim>\<open>file\<close>: the chunk is read and written; when that
  raises, the handler reads and writes it again, and what the second attempt raises
  propagates.
\<close>

definition write_chunk :: "chunk_storage \<Rightarrow> tempfile \<Rightarrow> string \<Rightarrow> (error + tempfile) \<times> chunk_storage" where
  "write_chunk cs outfile chunk =
     (case storage_read cs chunk of
        (Inr b, cs1) \<Rightarrow> (Inr (tf_write outfile b), cs1)
      | (Inl e, cs1) \<Rightarrow>
          (case storage_read cs1 chunk of
             (Inr b, cs2) \<Rightarrow> (Inr (tf_write outfile b), cs2)
           | (Inl e2, cs2) \<Rightarrow> (Inl e2, cs2)))"

fun file_loop :: "chunk_storage \<Rightarrow> tempfile \<Rightarrow> string list \<Rightarrow> (error + tempfile) \<times> chunk_storage" where
  "file_loop cs outfile [] = (Inr outfile, cs)"
| "file_loop cs outfile (chunk # rest) =
     (case write_chunk cs outfile chunk of
        (Inl e, cs1) \<Rightarrow> (Inl e, cs1)
      | (Inr outfile1, cs1) \<Rightarrow> file_loop cs1 outfile1 rest)"

definition file_prop :: "params \<Rightarrow> chunk_storage \<Rightarrow> (error + tempfile) \<times> chunk_storage" where
  "file_prop p cs =
     (case is_complete p cs of
        Inl e \<Rightarrow> (Inl e, cs)
      | Inr complete \<Rightarrow>
          if \<not> complete then (Inl IncompleteUpload, cs)
          else (case chunk_names p cs of
                  Inl e \<Rightarrow> (Inl e, cs)
                | Inr names \<Rightarrow> file_loop cs new_tempfile names))"

definition process_chunk :: "params \<Rightarrow> bytes \<Rightarrow> chunk_storage \<Rightarrow> (error + unit) \<times> chunk_storage" where
  "process_chunk p data cs =
     (case current_chunk_name p of
        Inl e \<Rightarrow> (Inl e, cs)
      | Inr name \<Rightarrow>
          (let cs1 = (if storage_exists cs name then storage_delete cs name else cs)
           in case storage_save cs1 name data of
                (Inl e, cs2) \<Rightarrow> (Inl e, cs2)
              | (Inr _, cs2) \<Rightarrow> (Inr (), cs2)))"

definition delete_chunks :: "params \<Rightarrow> chunk_storage \<Rightarrow> (error + unit) \<times> chunk_storage" where
  "delete_chunks p cs =
     (case chunk_names p cs of
        Inl e \<Rightarrow> (Inl e, cs)
      | Inr names \<Rightarrow> (Inr (), foldl storage_delete cs names))"

text \<open>
  \<^verbatim>\<open>collect\<close>. The persistent storage and \<^verbatim>\<open>ResumableStorage.full_filename\<close> are
  not part of the sources at hand; they are parameters: \<open>full_filename\<close> computes the
  storage path from the upload identity and the field's \<^verbatim>\<open>upload_to\<close>, and \<open>psave\<close>
  is the persistent storage's \<^verbatim>\<open>save\<close>, which receives the path and the handle of the
  merged file and returns the name it stored the file under, or raises. The arguments
  of the call are evaluated from left to right: the storage path, then the merge.
\<close>

definition collect ::
  "(string \<Rightarrow> 'u \<Rightarrow> string) \<Rightarrow> 'u \<Rightarrow> ('ps \<Rightarrow> string \<Rightarrow> tempfile \<Rightarrow> (error + string) \<times> 'ps) \<Rightarrow>
   params \<Rightarrow> chunk_storage \<times> 'ps \<Rightarrow> (error + string) \<times> chunk_storage \<times> 'ps" where
  "collect full_filename upload_to psave p st =
     (case st of (cs, ps) \<Rightarrow>
      (case filename p of
         Inl e \<Rightarrow> (Inl e, cs, ps)
       | Inr fn \<Rightarrow>
           (let storage_filename = full_filename fn upload_to
            in case file_prop p cs of
                 (Inl e, cs1) \<Rightarrow> (Inl e, cs1, ps)
               | (Inr outfile, cs1) \<Rightarrow>
                   (case psave ps storage_filename outfile of
                      (Inl e, ps1) \<Rightarrow> (Inl e, cs1, ps1)
                    | (Inr actual_filename, ps1) \<Rightarrow>
                        (case delete_chunks p cs1 of
                           (Inl e, cs2) \<Rightarrow> (Inl e, cs2, ps1)
                         | (Inr _, cs2) \<Rightarrow> (Inr actual_filename, cs2, ps1))))))"

subsection \<open>Requests and storages of the scenarios\<close>

text \<open>
  A request with its four parameters, a chunk storage without scripted faults, and a
  persistent storage that keeps the files it is given in a list and stores each under
  the requested path, reading the handle from its start as Django's
  \<^verbatim>\<open>File.chunks\<close> does.
\<close>

definition request :: "string \<Rightarrow> string \<Rightarrow> string \<Rightarrow> string \<Rightarrow> params" where
  "request fname declared number current =
     \<lparr>resumableFilename = fname, resumableTotalSize = declared,
      resumableChunkNumber = number, resumableCurrentChunkSize = current\<rparr>"

definition reliable :: "(string \<times> bytes) list \<Rightarrow> chunk_storage" where
  "reliable fs = \<lparr>files = fs, save_faults = [], read_faults = []\<rparr>"

definition join_path :: "string \<Rightarrow> string \<Rightarrow> string" where
  "join_path fn upload_to = upload_to @ fn"

definition list_save ::
  "(string \<times> bytes) list \<Rightarrow> string \<Rightarrow> tempfile \<Rightarrow> (error + string) \<times> (string \<times> bytes) list" where
  "list_save ps path f = (Inr path, (path, content f) # ps)"

definition failing_save ::
  "(string \<times> bytes) list \<Rightarrow> string \<Rightarrow> tempfile \<Rightarrow> (error + string) \<times> (string \<times> bytes) list" where
  "failing_save ps path f = (Inl PersistentStoreFailure, ps)"

subsection \<open>The requests of one upload\<close>

text \<open>
  The request that carries chunk number \<open>i\<close> of an upload: the parameters of the
  upload with the chunk number and the size of the chunk as decimal numerals. An
  upload is a sequence of such requests, each handled by \<open>process_chunk\<close>; the
  sequence stops at the first request that fails. \<open>part_name\<close> is the name under
  which chunk \<open>i\<close> of the identity \<open>fn\<close> is stored.
\<close>

definition chunk_request :: "params \<Rightarrow> nat \<Rightarrow> bytes \<Rightarrow> params" where
  "chunk_request p i data =
     p\<lparr>resumableChunkNumber := decimal i, resumableCurrentChunkSize := decimal (length data)\<rparr>"

fun process_all :: "params \<Rightarrow> (nat \<times> bytes) list \<Rightarrow> chunk_storage \<Rightarrow> (error + unit) \<times> chunk_storage" where
  "process_all p [] cs = (Inr (), cs)"
| "process_all p ((i, data) # rest) cs =
     (case process_chunk (chunk_request p i data) data cs of
        (Inl e, cs1) \<Rightarrow> (Inl e, cs1)
      | (Inr _, cs1) \<Rightarrow> process_all p rest cs1)"

definition part_name :: "string \<Rightarrow> nat \<Rightarrow> string" where
  "part_name fn i = fn @ chunk_suffix @ zfill 4 (decimal i)"

text \<open>Ten thousand chunks of one byte each, the last one different from the others.\<close>

definition many_payloads :: "bytes list" where
  "many_payloads = replicate 9999 ''a'' @ [''b'']"

subsection \<open>Notions used to state the properties\<close>

text \<open>The bytes the storage holds under a name, empty when the name is absent.\<close>

definition stored :: "chunk_storage \<Rightarrow> string \<Rightarrow> bytes" where
  "stored cs name = (case map_of (files cs) name of None \<Rightarrow> [] | Some b \<Rightarrow> b)"

section \<open>Properties\<close>

lemmas py_int_eval = py_int_def py_strip_def py_isspace_def py_isdigit_def digits_val_def digit_val_def

lemmas eval_defs = request_def reliable_def filename_def current_chunk_name_def chunk_suffix_def
  zfill_def is_complete_def size_chunks_def chunk_names_def storage_listdir_def storage_size_def
  storage_exists_def fnmatch_def py_int_eval file_prop_def write_chunk_def storage_read_def
  new_tempfile_def tf_write_def tf_read_def

subsection \<open>The listing of an upload's chunks\<close>

lemma chunk_names_loop_eq:
  "chunk_names_loop p fs acc =
     (if fs = [] then Inr acc
      else (case filename p of
              Inl e \<Rightarrow> Inl e
            | Inr fn \<Rightarrow> Inr (acc @ filter (\<lambda>f. fnmatch f (fn @ chunk_suffix @ ''*'')) fs)))"
  by (induction fs arbitrary: acc) (auto split: sum.splits)

lemma chunk_names_valid:
  "filename p = Inr fn \<Longrightarrow>
   chunk_names p cs = Inr (filter (\<lambda>f. fnmatch f (fn @ chunk_suffix @ ''*'')) (sort (storage_listdir cs)))"
  by (simp add: chunk_names_def chunk_names_loop_eq)

text \<open>
  The identity is derived inside the loop over the listing, so on an empty storage
  the listing of chunks is empty whatever the file name is.
\<close>

lemma chunk_names_empty_listing:
  "files cs = [] \<Longrightarrow> chunk_names p cs = Inr []"
  by (simp add: chunk_names_def storage_listdir_def)

lemma filename_Inl:
  "filename p = Inl e \<Longrightarrow> e = InvalidFilename \<and> CHR ''/'' \<in> set (resumableFilename p)"
  by (auto simp: filename_def split: if_splits)

lemma filename_Inr:
  "filename p = Inr fn \<Longrightarrow>
   CHR ''/'' \<notin> set (resumableFilename p) \<and> fn = resumableTotalSize p @ ''_'' @ resumableFilename p"
  by (auto simp: filename_def split: if_splits)

subsection \<open>The upload identity\<close>

text \<open>
  C5 (as amended). \<open>filename\<close> is a function of the request parameters alone: it
  fails with \<open>InvalidFilename\<close> exactly when the declared file name contains
  \<^verbatim>\<open>/\<close>, and otherwise returns the declared total size, an underscore and the file
  name. For a name with \<^verbatim>\<open>/\<close>, the operations that derive the identity before they
  touch the storage, \<open>chunk_exists\<close>, \<open>process_chunk\<close> and \<open>collect\<close>, fail with
  that error and hand the storages back as they were. The listing of the chunks, and
  with it the size, the completeness check, the merge and the deletion of the chunks,
  lists the storage first and derives the identity once for every listed file: these
  fail with that error when the storage lists a file, and do not reject the name when
  it lists none.
\<close>

theorem filename_rejects_exactly_path_separator:
  "filename p =
     (if CHR ''/'' \<in> set (resumableFilename p) then Inl InvalidFilename
      else Inr (resumableTotalSize p @ ''_'' @ resumableFilename p))
   \<and> (CHR ''/'' \<in> set (resumableFilename p) \<longrightarrow>
        chunk_exists p cs = Inl InvalidFilename
      \<and> process_chunk p data cs = (Inl InvalidFilename, cs)
      \<and> collect full_filename upload_to psave p (cs, ps) = (Inl InvalidFilename, cs, ps)
      \<and> chunk_names p cs = (if files cs = [] then Inr [] else Inl InvalidFilename)
      \<and> size_chunks p cs = (if files cs = [] then Inr 0 else Inl InvalidFilename)
      \<and> delete_chunks p cs = (if files cs = [] then (Inr (), cs) else (Inl InvalidFilename, cs))
      \<and> is_complete p cs =
          (case py_int (resumableTotalSize p) of
             Inl e \<Rightarrow> Inl e
           | Inr d \<Rightarrow> if files cs = [] then Inr (d = 0) else Inl InvalidFilename)
      \<and> file_prop p cs =
          (case py_int (resumableTotalSize p) of
             Inl e \<Rightarrow> (Inl e, cs)
           | Inr d \<Rightarrow>
               if files cs = [] then (if d = 0 then (Inr new_tempfile, cs) else (Inl IncompleteUpload, cs))
               else (Inl InvalidFilename, cs)))"
proof (intro conjI impI)
  show "filename p =
     (if CHR ''/'' \<in> set (resumableFilename p) then Inl InvalidFilename
      else Inr (resumableTotalSize p @ ''_'' @ resumableFilename p))"
    by (simp add: filename_def)
next
  assume a: "CHR ''/'' \<in> set (resumableFilename p)"
  then have f: "filename p = Inl InvalidFilename" by (simp add: filename_def)
  show "chunk_exists p cs = Inl InvalidFilename"
    by (simp add: chunk_exists_def current_chunk_name_def f)
  show "process_chunk p data cs = (Inl InvalidFilename, cs)"
    by (simp add: process_chunk_def current_chunk_name_def f)
  show "collect full_filename upload_to psave p (cs, ps) = (Inl InvalidFilename, cs, ps)"
    by (simp add: collect_def f)
  have s: "(sort (storage_listdir cs) = []) = (files cs = [])"
    using length_sort [of "\<lambda>x. x" "storage_listdir cs"]
    by (auto simp: storage_listdir_def simp del: length_sort)
  show n: "chunk_names p cs = (if files cs = [] then Inr [] else Inl InvalidFilename)"
    by (simp add: chunk_names_def chunk_names_loop_eq f s)
  show z: "size_chunks p cs = (if files cs = [] then Inr 0 else Inl InvalidFilename)"
    by (simp add: size_chunks_def n)
  show "delete_chunks p cs = (if files cs = [] then (Inr (), cs) else (Inl InvalidFilename, cs))"
    by (simp add: delete_chunks_def n)
  show c: "is_complete p cs =
          (case py_int (resumableTotalSize p) of
             Inl e \<Rightarrow> Inl e
           | Inr d \<Rightarrow> if files cs = [] then Inr (d = 0) else Inl InvalidFilename)"
    by (simp add: is_complete_def z split: sum.splits)
  show "file_prop p cs =
          (case py_int (resumableTotalSize p) of
             Inl e \<Rightarrow> (Inl e, cs)
           | Inr d \<Rightarrow>
               if files cs = [] then (if d = 0 then (Inr new_tempfile, cs) else (Inl IncompleteUpload, cs))
               else (Inl InvalidFilename, cs))"
    by (simp add: file_prop_def c n split: sum.splits)
qed


theorem filename_rejects_exactly_path_separator_witness:
  "CHR ''/'' \<in> set (resumableFilename (request ''a/b'' ''5'' ''1'' ''5''))
   \<and> filename (request ''a/b'' ''5'' ''1'' ''5'') = Inl InvalidFilename
   \<and> chunk_exists (request ''a/b'' ''5'' ''1'' ''5'') (reliable [(''5_x_part_0001'', ''12345'')])
        = Inl InvalidFilename
   \<and> process_chunk (request ''a/b'' ''5'' ''1'' ''5'') ''hello'' (reliable [(''5_x_part_0001'', ''12345'')])
        = (Inl InvalidFilename, reliable [(''5_x_part_0001'', ''12345'')])
   \<and> collect join_path ''up/'' list_save (request ''a/b'' ''5'' ''1'' ''5'')
         (reliable [(''5_x_part_0001'', ''12345'')], [])
        = (Inl InvalidFilename, reliable [(''5_x_part_0001'', ''12345'')], [])
   \<and> chunk_names (request ''a/b'' ''5'' ''1'' ''5'') (reliable [(''5_x_part_0001'', ''12345'')])
        = Inl InvalidFilename
   \<and> is_complete (request ''a/b'' ''5'' ''1'' ''5'') (reliable [(''5_x_part_0001'', ''12345'')])
        = Inl InvalidFilename
   \<and> file_prop (request ''a/b'' ''5'' ''1'' ''5'') (reliable [(''5_x_part_0001'', ''12345'')])
        = (Inl InvalidFilename, reliable [(''5_x_part_0001'', ''12345'')])
   \<and> delete_chunks (request ''a/b'' ''5'' ''1'' ''5'') (reliable [(''5_x_part_0001'', ''12345'')])
        = (Inl InvalidFilename, reliable [(''5_x_part_0001'', ''12345'')])
   \<and> chunk_names (request ''a/b'' ''5'' ''1'' ''5'') (reliable []) = Inr []
   \<and> is_complete (request ''a/b'' ''5'' ''1'' ''5'') (reliable []) = Inr False
   \<and> file_prop (request ''a/b'' ''5'' ''1'' ''5'') (reliable []) = (Inl IncompleteUpload, reliable [])"
proof -
  have d: "py_int (resumableTotalSize (request ''a/b'' ''5'' ''1'' ''5'')) = Inr 5"
    by (simp add: request_def py_int_eval)
  have s: "CHR ''/'' \<in> set (resumableFilename (request ''a/b'' ''5'' ''1'' ''5''))"
    by (simp add: request_def)
  show ?thesis
    using s
      filename_rejects_exactly_path_separator
        [where p = "request ''a/b'' ''5'' ''1'' ''5''"
           and cs = "reliable [(''5_x_part_0001'', ''12345'')]" and data = "''hello''"
           and full_filename = join_path and upload_to = "''up/''" and psave = list_save and ps = "[]"]
      filename_rejects_exactly_path_separator
        [where p = "request ''a/b'' ''5'' ''1'' ''5''"
           and cs = "reliable []" and data = "''hello''"
           and full_filename = join_path and upload_to = "''up/''" and psave = list_save and ps = "[]"]
    by (simp add: d) (simp add: reliable_def)
qed


text \<open>
  The claim as stated fails: whether the name \<^verbatim>\<open>a/b\<close> is rejected by the listing
  depends on what the storage lists. On an empty storage the name is not rejected at
  all, and with the declared total size 0 the upload is complete, is merged and its
  chunks are deleted without an error; on a storage that lists a file the same listing
  fails with \<open>InvalidFilename\<close>.
\<close>

theorem invalid_name_not_rejected_on_empty_storage:
  "filename (request ''a/b'' ''0'' ''1'' ''0'') = Inl InvalidFilename
   \<and> chunk_names (request ''a/b'' ''0'' ''1'' ''0'') (reliable []) = Inr []
   \<and> is_complete (request ''a/b'' ''0'' ''1'' ''0'') (reliable []) = Inr True
   \<and> file_prop (request ''a/b'' ''0'' ''1'' ''0'') (reliable []) = (Inr new_tempfile, reliable [])
   \<and> delete_chunks (request ''a/b'' ''0'' ''1'' ''0'') (reliable []) = (Inr (), reliable [])
   \<and> chunk_names (request ''a/b'' ''0'' ''1'' ''0'') (reliable [(''x'', ''y'')]) = Inl InvalidFilename"
proof -
  have n: "chunk_names (request ''a/b'' ''0'' ''1'' ''0'') (reliable []) = Inr []"
    by (rule chunk_names_empty_listing) (simp add: reliable_def)
  have d: "py_int (resumableTotalSize (request ''a/b'' ''0'' ''1'' ''0'')) = Inr 0"
    by (simp add: request_def py_int_eval)
  have c: "is_complete (request ''a/b'' ''0'' ''1'' ''0'') (reliable []) = Inr True"
    by (simp add: is_complete_def size_chunks_def n d)
  have f: "filename (request ''a/b'' ''0'' ''1'' ''0'') = Inl InvalidFilename"
    by (simp add: filename_def request_def)
  show ?thesis
    by (simp add: f n c file_prop_def delete_chunks_def)
      (simp add: chunk_names_def storage_listdir_def reliable_def f)
qed

lemma chunk_names_subset:
  "chunk_names p cs = Inr names \<Longrightarrow> set names \<subseteq> fst ` set (files cs)"
  by (auto simp: chunk_names_def chunk_names_loop_eq storage_listdir_def split: if_splits sum.splits)

lemma chunk_names_faults [simp]:
  "chunk_names p (cs\<lparr>read_faults := r\<rparr>) = chunk_names p cs"
  "chunk_names p (cs\<lparr>save_faults := s\<rparr>) = chunk_names p cs"
  by (simp_all add: chunk_names_def storage_listdir_def)

subsection \<open>What the operations do to the stored files\<close>

lemma files_storage_delete [simp]:
  "files (storage_delete cs name) = filter (\<lambda>kv. fst kv \<noteq> name) (files cs)"
  by (simp add: storage_delete_def)

lemma faults_storage_delete [simp]:
  "save_faults (storage_delete cs name) = save_faults cs"
  "read_faults (storage_delete cs name) = read_faults cs"
  by (simp_all add: storage_delete_def)

text \<open>
  \<open>process_chunk\<close> reaches the save with the chunk name absent from the storage, so
  what the storage does on a save under a name that is taken plays no part in it.
\<close>

lemma process_chunk_saves_under_free_name:
  "\<not> storage_exists (if storage_exists cs name then storage_delete cs name else cs) name"
  by (auto simp: storage_exists_def map_of_eq_None_iff)

lemma files_foldl_delete:
  "files (foldl storage_delete cs names) = filter (\<lambda>kv. fst kv \<notin> set names) (files cs)"
  by (induction names arbitrary: cs) (auto intro: filter_cong)

lemma files_storage_read [simp]: "files (snd (storage_read cs name)) = files cs"
  by (simp add: storage_read_def split: list.splits bool.splits)

lemma files_write_chunk [simp]: "files (snd (write_chunk cs out chunk)) = files cs"
proof -
  obtain r1 cs1 where a: "storage_read cs chunk = (r1, cs1)" by (cases "storage_read cs chunk")
  obtain r2 cs2 where b: "storage_read cs1 chunk = (r2, cs2)" by (cases "storage_read cs1 chunk")
  have f1: "files cs1 = files cs" using files_storage_read [of cs chunk] a by simp
  have f2: "files cs2 = files cs1" using files_storage_read [of cs1 chunk] b by simp
  show ?thesis using a b f1 f2 by (simp add: write_chunk_def split: sum.splits)
qed

lemma files_file_loop [simp]: "files (snd (file_loop cs out names)) = files cs"
proof (induction names arbitrary: cs out)
  case Nil
  then show ?case by simp
next
  case (Cons n ns)
  obtain r cs1 where a: "write_chunk cs out n = (r, cs1)" by (cases "write_chunk cs out n")
  have f: "files cs1 = files cs" using files_write_chunk [of cs out n] a by simp
  show ?case using a f Cons.IH [of cs1] by (simp split: sum.splits)
qed

lemma files_file_prop [simp]: "files (snd (file_prop p cs)) = files cs"
  by (simp add: file_prop_def split: sum.splits)

lemma size_loop_cong:
  "files cs' = files cs \<Longrightarrow> size_loop cs' names n = size_loop cs names n"
  by (induction names arbitrary: n) (auto simp: storage_size_def split: sum.splits option.splits)

lemma is_complete_cong:
  "files cs' = files cs \<Longrightarrow> is_complete p cs' = is_complete p cs"
  by (simp add: is_complete_def size_chunks_def chunk_names_def storage_listdir_def
      size_loop_cong [of cs' cs] cong: sum.case_cong)

subsection \<open>The merge without read faults\<close>

lemma storage_read_ok:
  "read_faults cs = [] \<Longrightarrow> map_of (files cs) name = Some b \<Longrightarrow> storage_read cs name = (Inr b, cs)"
  by (simp add: storage_read_def)

lemma write_chunk_ok:
  "read_faults cs = [] \<Longrightarrow> map_of (files cs) name = Some b \<Longrightarrow>
   write_chunk cs out name = (Inr (tf_write out b), cs)"
  by (simp add: write_chunk_def storage_read_ok)

lemma tf_write_end:
  "pos out = length (content out) \<Longrightarrow>
   tf_write out b = \<lparr>content = content out @ b, pos = length (content out @ b)\<rparr>"
  by (simp add: tf_write_def)

lemma file_loop_ok:
  "read_faults cs = [] \<Longrightarrow> set names \<subseteq> fst ` set (files cs) \<Longrightarrow> pos out = length (content out) \<Longrightarrow>
   file_loop cs out names =
     (Inr \<lparr>content = content out @ concat (map (stored cs) names),
           pos = length (content out @ concat (map (stored cs) names))\<rparr>, cs)"
proof (induction names arbitrary: out)
  case Nil
  then show ?case by simp
next
  case (Cons n ns)
  from Cons.prems(2) obtain b where b: "map_of (files cs) n = Some b"
    by (cases "map_of (files cs) n") (auto simp: map_of_eq_None_iff)
  have w: "write_chunk cs out n = (Inr (tf_write out b), cs)"
    using Cons.prems(1) b by (rule write_chunk_ok)
  have t: "tf_write out b = \<lparr>content = content out @ b, pos = length (content out @ b)\<rparr>"
    using Cons.prems(3) by (rule tf_write_end)
  have "file_loop cs (tf_write out b) ns =
     (Inr \<lparr>content = content (tf_write out b) @ concat (map (stored cs) ns),
           pos = length (content (tf_write out b) @ concat (map (stored cs) ns))\<rparr>, cs)"
    using Cons.prems by (intro Cons.IH) (simp_all add: t)
  moreover have "stored cs n = b" using b by (simp add: stored_def)
  ultimately show ?case using w by (simp add: t)
qed

lemma file_prop_ok:
  assumes "is_complete p cs = Inr True" and "read_faults cs = []"
  shows "\<exists>names. chunk_names p cs = Inr names \<and>
           file_prop p cs = (Inr \<lparr>content = concat (map (stored cs) names),
                                   pos = length (concat (map (stored cs) names))\<rparr>, cs)"
proof -
  from assms(1) obtain names where n: "chunk_names p cs = Inr names"
    by (auto simp: is_complete_def size_chunks_def split: sum.splits)
  have "file_loop cs new_tempfile names =
     (Inr \<lparr>content = content new_tempfile @ concat (map (stored cs) names),
           pos = length (content new_tempfile @ concat (map (stored cs) names))\<rparr>, cs)"
    using assms(2) chunk_names_subset [OF n] by (rule file_loop_ok) (simp add: new_tempfile_def)
  then show ?thesis using assms(1) n by (simp add: file_prop_def new_tempfile_def)
qed

lemma write_chunk_pos:
  "write_chunk cs out chunk = (Inr f, cs') \<Longrightarrow> pos out = length (content out) \<Longrightarrow>
   pos f = length (content f)"
  by (auto simp: write_chunk_def tf_write_def split: prod.splits sum.splits)

lemma file_loop_pos:
  "file_loop cs out names = (Inr f, cs') \<Longrightarrow> pos out = length (content out) \<Longrightarrow>
   pos f = length (content f)"
proof (induction names arbitrary: cs out)
  case Nil
  then show ?case by simp
next
  case (Cons n ns)
  then show ?case
    by (auto split: prod.splits sum.splits dest: write_chunk_pos)
qed

subsection \<open>Deleting the chunks of an upload\<close>

lemma delete_chunks_valid:
  "filename p = Inr fn \<Longrightarrow>
   \<exists>names. chunk_names p cs = Inr names \<and> delete_chunks p cs = (Inr (), foldl storage_delete cs names)"
  by (simp add: delete_chunks_def chunk_names_valid)

lemma chunk_names_after_delete:
  assumes "chunk_names p cs = Inr names"
  shows "chunk_names p (foldl storage_delete cs names) = Inr []"
proof (cases "filename p")
  case (Inl e)
  then have "sort (storage_listdir cs) = []" using assms
    by (auto simp: chunk_names_def chunk_names_loop_eq split: if_splits)
  then have "length (storage_listdir cs) = 0" using length_sort [of "\<lambda>x. x" "storage_listdir cs"] by simp
  then have "files cs = []" by (simp add: storage_listdir_def)
  then have "files (foldl storage_delete cs names) = []" by (simp add: files_foldl_delete)
  then show ?thesis by (rule chunk_names_empty_listing)
next
  case (Inr fn)
  let ?m = "\<lambda>f. fnmatch f (fn @ chunk_suffix @ ''*'')"
  have n: "names = filter ?m (sort (storage_listdir cs))"
    using assms chunk_names_valid [OF Inr, of cs] by simp
  have "filter ?m (sort (storage_listdir (foldl storage_delete cs names))) = []"
    by (auto simp: filter_empty_conv storage_listdir_def files_foldl_delete n)
  then show ?thesis using chunk_names_valid [OF Inr] by simp
qed

lemma collect_Inl_files:
  assumes "collect full_filename upload_to psave p (cs, ps) = (Inl e, cs', ps')"
  shows "files cs' = files cs"
proof (cases "filename p")
  case (Inl e0)
  then show ?thesis using assms by (simp add: collect_def)
next
  case (Inr fn)
  obtain r cs1 where f: "file_prop p cs = (r, cs1)" by (cases "file_prop p cs")
  have f1: "files cs1 = files cs" using files_file_prop [of p cs] f by simp
  from delete_chunks_valid [OF Inr, of cs1] obtain names where
    d: "delete_chunks p cs1 = (Inr (), foldl storage_delete cs1 names)" by blast
  show ?thesis using assms Inr f f1 d
    by (auto simp: collect_def split: sum.splits prod.splits)
qed

lemma collect_Inr:
  assumes "collect full_filename upload_to psave p (cs, ps) = (Inr actual, cs2, ps2)"
  shows "chunk_names p cs2 = Inr [] \<and>
         (\<exists>fn out cs1. filename p = Inr fn \<and> file_prop p cs = (Inr out, cs1) \<and>
            psave ps (full_filename fn upload_to) out = (Inr actual, ps2))"
proof (cases "filename p")
  case (Inl e0)
  then show ?thesis using assms by (simp add: collect_def)
next
  case (Inr fn)
  obtain r cs1 where f: "file_prop p cs = (r, cs1)" by (cases "file_prop p cs")
  from delete_chunks_valid [OF Inr, of cs1] obtain names where
    n: "chunk_names p cs1 = Inr names" and
    d: "delete_chunks p cs1 = (Inr (), foldl storage_delete cs1 names)" by blast
  have e: "chunk_names p (foldl storage_delete cs1 names) = Inr []"
    using n by (rule chunk_names_after_delete)
  show ?thesis using assms Inr f d e
    by (auto simp: collect_def split: sum.splits prod.splits)
qed

subsection \<open>Finalizing: \<open>collect\<close>\<close>

text \<open>
  C2. The chunks are deleted only after the persistent storage's save has returned a
  name. When the merge has produced a handle and the save raises, \<open>collect\<close> raises
  the same error and the chunk storage holds the files it held; indeed whenever
  \<open>collect\<close> fails the stored files are the ones from before the call. When
  \<open>collect\<close> returns a name, that name is the one the persistent storage returned for
  the merged file, and the listing of the upload's chunks is empty afterwards.
\<close>

theorem collect_deletes_only_after_save:
  "(filename p = Inr fn \<and> file_prop p cs = (Inr out, cs1) \<and>
      psave ps (full_filename fn upload_to) out = (Inl e, ps1) \<longrightarrow>
        collect full_filename upload_to psave p (cs, ps) = (Inl e, cs1, ps1) \<and> files cs1 = files cs)
   \<and> (collect full_filename upload_to psave p (cs, ps) = (Inl e', cs', ps') \<longrightarrow> files cs' = files cs)
   \<and> (collect full_filename upload_to psave p (cs, ps) = (Inr actual, cs2, ps2) \<longrightarrow>
        chunk_names p cs2 = Inr [] \<and>
        (\<exists>fn out cs1. filename p = Inr fn \<and> file_prop p cs = (Inr out, cs1) \<and>
            psave ps (full_filename fn upload_to) out = (Inr actual, ps2)))"
proof (intro conjI impI)
  assume a: "filename p = Inr fn \<and> file_prop p cs = (Inr out, cs1) \<and>
      psave ps (full_filename fn upload_to) out = (Inl e, ps1)"
  then show "collect full_filename upload_to psave p (cs, ps) = (Inl e, cs1, ps1)"
    by (simp add: collect_def)
  show "files cs1 = files cs" using a files_file_prop [of p cs] by simp
next
  assume "collect full_filename upload_to psave p (cs, ps) = (Inl e', cs', ps')"
  then show "files cs' = files cs" by (rule collect_Inl_files)
next
  assume a: "collect full_filename upload_to psave p (cs, ps) = (Inr actual, cs2, ps2)"
  from collect_Inr [OF a] show "chunk_names p cs2 = Inr []" by blast
  from collect_Inr [OF a] show "\<exists>fn out cs1. filename p = Inr fn \<and> file_prop p cs = (Inr out, cs1) \<and>
            psave ps (full_filename fn upload_to) out = (Inr actual, ps2)" by blast
qed

theorem collect_deletes_only_after_save_witness:
  "collect join_path ''up/'' failing_save (request ''f.bin'' ''3'' ''1'' ''3'')
       (reliable [(''3_f.bin_part_0001'', ''abc'')], [])
     = (Inl PersistentStoreFailure, reliable [(''3_f.bin_part_0001'', ''abc'')], [])
   \<and> files (reliable [(''3_f.bin_part_0001'', ''abc'')]) = [(''3_f.bin_part_0001'', ''abc'')]
   \<and> collect join_path ''up/'' list_save (request ''f.bin'' ''3'' ''1'' ''3'')
       (reliable [(''3_f.bin_part_0001'', ''abc''), (''other'', ''zz'')], [])
     = (Inr ''up/3_f.bin'', reliable [(''other'', ''zz'')], [(''up/3_f.bin'', ''abc'')])
   \<and> chunk_names (request ''f.bin'' ''3'' ''1'' ''3'') (reliable [(''other'', ''zz'')]) = Inr []"
proof -
  let ?p = "request ''f.bin'' ''3'' ''1'' ''3''"
  let ?cs = "reliable [(''3_f.bin_part_0001'', ''abc'')]"
  let ?cs2 = "reliable [(''3_f.bin_part_0001'', ''abc''), (''other'', ''zz'')]"
  have f: "filename ?p = Inr ''3_f.bin''" by (simp add: eval_defs)
  have m: "file_prop ?p ?cs = (Inr \<lparr>content = ''abc'', pos = 3\<rparr>, ?cs)" by (simp add: eval_defs)
  have s: "failing_save [] (join_path ''3_f.bin'' ''up/'') \<lparr>content = ''abc'', pos = 3\<rparr>
             = (Inl PersistentStoreFailure, [])" by (simp add: failing_save_def)
  have c: "collect join_path ''up/'' list_save ?p (?cs2, [])
             = (Inr ''up/3_f.bin'', reliable [(''other'', ''zz'')], [(''up/3_f.bin'', ''abc'')])"
    by (simp add: eval_defs collect_def delete_chunks_def join_path_def list_save_def storage_delete_def)
  from collect_deletes_only_after_save
    [where p = ?p and cs = ?cs and fn = "''3_f.bin''" and out = "\<lparr>content = ''abc'', pos = 3\<rparr>"
       and ?cs1.0 = ?cs and psave = failing_save and ps = "[]" and full_filename = join_path
       and upload_to = "''up/''" and e = PersistentStoreFailure and ?ps1.0 = "[]"]
    f m s
  have 1: "collect join_path ''up/'' failing_save ?p (?cs, []) = (Inl PersistentStoreFailure, ?cs, [])"
    by simp
  from collect_deletes_only_after_save
    [where p = ?p and cs = ?cs2 and psave = list_save and ps = "[]" and full_filename = join_path
       and upload_to = "''up/''" and actual = "''up/3_f.bin''" and ?cs2.0 = "reliable [(''other'', ''zz'')]"
       and ?ps2.0 = "[(''up/3_f.bin'', ''abc'')]"] c
  have 2: "chunk_names ?p (reliable [(''other'', ''zz'')]) = Inr []" by simp
  show ?thesis using 1 2 c by (simp add: reliable_def)
qed

text \<open>
  C3 (as amended). When \<open>is_complete\<close> returns false, the merge fails with
  \<open>IncompleteUpload\<close>; \<open>collect\<close> fails too, with \<open>IncompleteUpload\<close> when the file
  name is valid and with \<open>InvalidFilename\<close> when it contains \<^verbatim>\<open>/\<close>, because it
  derives the storage path before it merges. In every case the storages are handed
  back as they were.
\<close>

theorem incomplete_upload_refused:
  "is_complete p cs = Inr False \<Longrightarrow>
     file_prop p cs = (Inl IncompleteUpload, cs)
   \<and> collect full_filename upload_to psave p (cs, ps) =
       (if CHR ''/'' \<in> set (resumableFilename p) then (Inl InvalidFilename, cs, ps)
        else (Inl IncompleteUpload, cs, ps))"
  by (simp add: file_prop_def collect_def filename_def)

theorem incomplete_upload_refused_witness:
  "is_complete (request ''f.bin'' ''10'' ''1'' ''6'') (reliable [(''10_f.bin_part_0001'', ''abcdef'')]) = Inr False
   \<and> file_prop (request ''f.bin'' ''10'' ''1'' ''6'') (reliable [(''10_f.bin_part_0001'', ''abcdef'')])
       = (Inl IncompleteUpload, reliable [(''10_f.bin_part_0001'', ''abcdef'')])
   \<and> collect join_path ''up/'' list_save (request ''f.bin'' ''10'' ''1'' ''6'')
         (reliable [(''10_f.bin_part_0001'', ''abcdef'')], [])
       = (Inl IncompleteUpload, reliable [(''10_f.bin_part_0001'', ''abcdef'')], [])"
proof -
  have h: "is_complete (request ''f.bin'' ''10'' ''1'' ''6'')
             (reliable [(''10_f.bin_part_0001'', ''abcdef'')]) = Inr False"
    by (simp add: eval_defs)
  show ?thesis
    using h incomplete_upload_refused [OF h, where full_filename = join_path and upload_to = "''up/''"
        and psave = list_save and ps = "[]"]
    by (simp add: request_def)
qed

text \<open>
  The claim as stated fails: on an empty chunk storage the listing loop never derives
  the identity, so \<open>is_complete\<close> returns false for a name with \<^verbatim>\<open>/\<close>, and
  \<open>collect\<close> then fails with \<open>InvalidFilename\<close>, not with \<open>IncompleteUpload\<close>.
\<close>

theorem collect_invalid_name_not_incomplete:
  "is_complete (request ''a/b'' ''5'' ''1'' ''5'') (reliable []) = Inr False
   \<and> collect join_path ''up/'' list_save (request ''a/b'' ''5'' ''1'' ''5'') (reliable [], [])
       = (Inl InvalidFilename, reliable [], [])
   \<and> InvalidFilename \<noteq> IncompleteUpload"
  by (simp add: is_complete_def size_chunks_def chunk_names_empty_listing reliable_def request_def
      py_int_eval collect_def filename_def)

subsection \<open>The validity of a stored chunk\<close>

text \<open>
  C6. For a valid file name and a declared chunk size that \<^verbatim>\<open>int\<close> accepts,
  \<open>chunk_exists\<close> returns true exactly when the storage holds a chunk under the
  current chunk name and the size of that chunk is the declared size. A chunk declared
  with 5 bytes of which 3 were stored exists under its name, is not reported valid,
  and the upload of declared total size 5 is not complete.
\<close>

theorem chunk_exists_iff_stored_size_matches:
  "filename p = Inr fn \<Longrightarrow> py_int (resumableCurrentChunkSize p) = Inr d \<Longrightarrow>
     chunk_exists p cs =
       Inr (storage_exists cs (fn @ chunk_suffix @ zfill 4 (resumableChunkNumber p))
            \<and> storage_size cs (fn @ chunk_suffix @ zfill 4 (resumableChunkNumber p)) = Inr (nat d) \<and> 0 \<le> d)
   \<and> storage_exists (reliable [(''5_f.bin_part_0001'', ''abc'')]) ''5_f.bin_part_0001''
   \<and> chunk_exists (request ''f.bin'' ''5'' ''1'' ''5'') (reliable [(''5_f.bin_part_0001'', ''abc'')]) = Inr False
   \<and> is_complete (request ''f.bin'' ''5'' ''1'' ''5'') (reliable [(''5_f.bin_part_0001'', ''abc'')]) = Inr False"
proof (intro conjI)
  assume a: "filename p = Inr fn" "py_int (resumableCurrentChunkSize p) = Inr d"
  show "chunk_exists p cs =
       Inr (storage_exists cs (fn @ chunk_suffix @ zfill 4 (resumableChunkNumber p))
            \<and> storage_size cs (fn @ chunk_suffix @ zfill 4 (resumableChunkNumber p)) = Inr (nat d) \<and> 0 \<le> d)"
    using a by (auto simp: chunk_exists_def current_chunk_name_def storage_size_def storage_exists_def
        split: option.splits)
next
  show "storage_exists (reliable [(''5_f.bin_part_0001'', ''abc'')]) ''5_f.bin_part_0001''"
    by (simp add: storage_exists_def reliable_def)
next
  show "chunk_exists (request ''f.bin'' ''5'' ''1'' ''5'') (reliable [(''5_f.bin_part_0001'', ''abc'')]) = Inr False"
    by (simp add: chunk_exists_def eval_defs)
next
  show "is_complete (request ''f.bin'' ''5'' ''1'' ''5'') (reliable [(''5_f.bin_part_0001'', ''abc'')]) = Inr False"
    by (simp add: eval_defs)
qed

theorem chunk_exists_iff_stored_size_matches_witness:
  "filename (request ''f.bin'' ''10'' ''2'' ''4'') = Inr ''10_f.bin''
   \<and> py_int (resumableCurrentChunkSize (request ''f.bin'' ''10'' ''2'' ''4'')) = Inr 4
   \<and> chunk_exists (request ''f.bin'' ''10'' ''2'' ''4'') (reliable [(''10_f.bin_part_0002'', ''ghij'')]) = Inr True
   \<and> chunk_exists (request ''f.bin'' ''10'' ''2'' ''4'') (reliable [(''10_f.bin_part_0002'', ''gh'')]) = Inr False
   \<and> chunk_exists (request ''f.bin'' ''10'' ''2'' ''4'') (reliable [(''10_f.bin_part_0001'', ''ghij'')]) = Inr False"
proof -
  have f: "filename (request ''f.bin'' ''10'' ''2'' ''4'') = Inr ''10_f.bin''"
    by (simp add: eval_defs)
  have d: "py_int (resumableCurrentChunkSize (request ''f.bin'' ''10'' ''2'' ''4'')) = Inr 4"
    by (simp add: eval_defs)
  show ?thesis
    using f d
      chunk_exists_iff_stored_size_matches [OF f d, of "reliable [(''10_f.bin_part_0002'', ''ghij'')]"]
      chunk_exists_iff_stored_size_matches [OF f d, of "reliable [(''10_f.bin_part_0002'', ''gh'')]"]
      chunk_exists_iff_stored_size_matches [OF f d, of "reliable [(''10_f.bin_part_0001'', ''ghij'')]"]
    by (simp add: request_def reliable_def chunk_suffix_def zfill_def storage_exists_def storage_size_def
        eval_nat_numeral)
qed

subsection \<open>Reading the chunks during the merge\<close>

lemma file_loop_append:
  "file_loop cs out (xs @ ys) =
     (case file_loop cs out xs of
        (Inl e, cs1) \<Rightarrow> (Inl e, cs1)
      | (Inr out1, cs1) \<Rightarrow> file_loop cs1 out1 ys)"
  by (induction xs arbitrary: cs out) (auto split: prod.splits sum.splits)

lemma stored_cong: "files cs' = files cs \<Longrightarrow> stored cs' = stored cs"
  by (auto simp: stored_def fun_eq_iff)

lemma write_chunk_clean:
  "read_faults cs = False # fs \<Longrightarrow> map_of (files cs) name = Some b \<Longrightarrow>
   write_chunk cs out name = (Inr (tf_write out b), cs\<lparr>read_faults := fs\<rparr>)"
  by (simp add: write_chunk_def storage_read_def)

lemma file_loop_clean_prefix:
  "set pre \<subseteq> fst ` set (files cs) \<Longrightarrow> pos out = length (content out) \<Longrightarrow>
   read_faults cs = replicate (length pre) False @ fs \<Longrightarrow>
   file_loop cs out pre =
     (Inr \<lparr>content = content out @ concat (map (stored cs) pre),
           pos = length (content out @ concat (map (stored cs) pre))\<rparr>, cs\<lparr>read_faults := fs\<rparr>)"
proof (induction pre arbitrary: cs out)
  case Nil
  then show ?case by simp
next
  case (Cons n ns)
  from Cons.prems(1) obtain b where b: "map_of (files cs) n = Some b"
    by (cases "map_of (files cs) n") (auto simp: map_of_eq_None_iff)
  let ?cs1 = "cs\<lparr>read_faults := replicate (length ns) False @ fs\<rparr>"
  have rf: "read_faults cs = False # (replicate (length ns) False @ fs)" using Cons.prems(3) by simp
  have w: "write_chunk cs out n = (Inr (tf_write out b), ?cs1)"
    using rf b by (rule write_chunk_clean)
  have t: "tf_write out b = \<lparr>content = content out @ b, pos = length (content out @ b)\<rparr>"
    using Cons.prems(2) by (rule tf_write_end)
  have sc: "stored ?cs1 = stored cs" by (rule stored_cong) simp
  have "file_loop ?cs1 (tf_write out b) ns =
     (Inr \<lparr>content = content (tf_write out b) @ concat (map (stored ?cs1) ns),
           pos = length (content (tf_write out b) @ concat (map (stored ?cs1) ns))\<rparr>,
      ?cs1\<lparr>read_faults := fs\<rparr>)"
    using Cons.prems(1) by (intro Cons.IH) (simp_all add: t)
  moreover have "stored cs n = b" using b by (simp add: stored_def)
  ultimately show ?case using w by (simp add: t sc)
qed

lemma write_chunk_twice_failed:
  "read_faults cs = True # True # rest \<Longrightarrow>
   write_chunk cs out chunk = (Inl ChunkReadFailure, cs\<lparr>read_faults := rest\<rparr>)"
  by (simp add: write_chunk_def storage_read_def)

lemma write_chunk_retry_ok:
  "read_faults cs = True # False # rest \<Longrightarrow> map_of (files cs) chunk = Some b \<Longrightarrow>
   write_chunk cs out chunk = (Inr (tf_write out b), cs\<lparr>read_faults := rest\<rparr>)"
  by (simp add: write_chunk_def storage_read_def)

lemma file_loop_later_chunk_fails:
  assumes "file_loop cs out pre = (Inr out1, cs1)" and "read_faults cs1 = True # True # rest"
  shows "file_loop cs out (pre @ n # ns) = (Inl ChunkReadFailure, cs1\<lparr>read_faults := rest\<rparr>)"
  by (simp add: file_loop_append assms(1) write_chunk_twice_failed [OF assms(2)])

lemma file_loop_later_chunk_retried:
  assumes "file_loop cs out pre = (Inr out1, cs1)" and "read_faults cs1 = True # False # rest"
    and "map_of (files cs) n = Some b"
  shows "file_loop cs out (pre @ n # ns) =
           file_loop (cs1\<lparr>read_faults := rest\<rparr>) (tf_write out1 b) ns"
proof -
  have "files cs1 = files cs" using files_file_loop [of cs out pre] assms(1) by simp
  then have "map_of (files cs1) n = Some b" using assms(3) by simp
  from write_chunk_retry_ok [OF assms(2) this]
  show ?thesis by (simp add: file_loop_append assms(1))
qed

lemma chunk_names_valid_name:
  "chunk_names p cs = Inr (pre @ n # ns) \<Longrightarrow> \<exists>fn. filename p = Inr fn"
  by (cases "filename p") (simp_all add: chunk_names_def chunk_names_loop_eq split: if_splits)


text \<open>
  C7. In the merge a chunk whose read fails is read once more, at once: two failing
  attempts in a row make \<open>write_chunk\<close> fail with \<open>ChunkReadFailure\<close> after exactly
  two attempts, one failing attempt followed by a good one gives the result of a good
  read after two attempts, and a good first attempt is the only one. The merge never
  changes the stored files. This holds for every chunk of the listing: when the merge
  of a complete upload has written the chunks before some chunk and the next two
  attempts fail, the merge fails with \<open>ChunkReadFailure\<close> after exactly these two
  attempts, and so does \<open>collect\<close>, which saves and deletes nothing; when only the
  first of the two fails, the chunk is written and the merge goes on with the chunks
  after it. In terms of the script of the faults: clean reads for the chunks before
  and then two faults make the merge fail, clean reads and then one fault give the
  complete merged content. Once the faults are gone the merge of the same storage
  succeeds.
\<close>

theorem chunk_read_retried_once:
  "(read_faults cs = True # True # rest \<longrightarrow>
      write_chunk cs out chunk = (Inl ChunkReadFailure, cs\<lparr>read_faults := rest\<rparr>))
   \<and> (read_faults cs = True # False # rest \<and> map_of (files cs) chunk = Some b \<longrightarrow>
      write_chunk cs out chunk = (Inr (tf_write out b), cs\<lparr>read_faults := rest\<rparr>))
   \<and> (read_faults cs = False # rest \<and> map_of (files cs) chunk = Some b \<longrightarrow>
      write_chunk cs out chunk = (Inr (tf_write out b), cs\<lparr>read_faults := rest\<rparr>))
   \<and> files (snd (file_prop p cs)) = files cs
   \<and> (is_complete p cs = Inr True \<and> chunk_names p cs = Inr (pre @ n # ns) \<and>
        file_loop cs new_tempfile pre = (Inr out1, cs1) \<and> read_faults cs1 = True # True # rest \<longrightarrow>
      file_prop p cs = (Inl ChunkReadFailure, cs1\<lparr>read_faults := rest\<rparr>)
      \<and> collect full_filename upload_to psave p (cs, ps) =
          (Inl ChunkReadFailure, cs1\<lparr>read_faults := rest\<rparr>, ps)
      \<and> files (cs1\<lparr>read_faults := rest\<rparr>) = files cs)
   \<and> (is_complete p cs = Inr True \<and> chunk_names p cs = Inr (pre @ n # ns) \<and>
        file_loop cs new_tempfile pre = (Inr out1, cs1) \<and> read_faults cs1 = True # False # rest \<longrightarrow>
      file_prop p cs = file_loop (cs1\<lparr>read_faults := rest\<rparr>) (tf_write out1 (stored cs n)) ns)
   \<and> (is_complete p cs = Inr True \<and> chunk_names p cs = Inr (pre @ n # ns) \<and>
        read_faults cs = replicate (length pre) False @ True # True # rest \<longrightarrow>
      file_prop p cs = (Inl ChunkReadFailure, cs\<lparr>read_faults := rest\<rparr>)
      \<and> collect full_filename upload_to psave p (cs, ps) =
          (Inl ChunkReadFailure, cs\<lparr>read_faults := rest\<rparr>, ps))
   \<and> (is_complete p cs = Inr True \<and> chunk_names p cs = Inr (pre @ n # ns) \<and>
        read_faults cs = replicate (length pre) False @ [True] \<longrightarrow>
      file_prop p cs =
        (Inr \<lparr>content = concat (map (stored cs) (pre @ n # ns)),
              pos = length (concat (map (stored cs) (pre @ n # ns)))\<rparr>, cs\<lparr>read_faults := []\<rparr>))
   \<and> (is_complete p cs = Inr True \<longrightarrow>
      (\<exists>f. file_prop p (cs\<lparr>read_faults := []\<rparr>) = (Inr f, cs\<lparr>read_faults := []\<rparr>)))"
proof (intro conjI impI)
  show "files (snd (file_prop p cs)) = files cs" by simp
next
  assume "read_faults cs = True # True # rest"
  then show "write_chunk cs out chunk = (Inl ChunkReadFailure, cs\<lparr>read_faults := rest\<rparr>)"
    by (rule write_chunk_twice_failed)
next
  assume "read_faults cs = True # False # rest \<and> map_of (files cs) chunk = Some b"
  then show "write_chunk cs out chunk = (Inr (tf_write out b), cs\<lparr>read_faults := rest\<rparr>)"
    by (simp add: write_chunk_retry_ok)
next
  assume "read_faults cs = False # rest \<and> map_of (files cs) chunk = Some b"
  then show "write_chunk cs out chunk = (Inr (tf_write out b), cs\<lparr>read_faults := rest\<rparr>)"
    by (simp add: write_chunk_clean)
next
  assume a: "is_complete p cs = Inr True \<and> chunk_names p cs = Inr (pre @ n # ns) \<and>
        file_loop cs new_tempfile pre = (Inr out1, cs1) \<and> read_faults cs1 = True # True # rest"
  then have l: "file_loop cs new_tempfile (pre @ n # ns) = (Inl ChunkReadFailure, cs1\<lparr>read_faults := rest\<rparr>)"
    by (intro file_loop_later_chunk_fails) simp_all
  show m: "file_prop p cs = (Inl ChunkReadFailure, cs1\<lparr>read_faults := rest\<rparr>)"
    using a l by (simp add: file_prop_def)
  have "\<exists>fn. filename p = Inr fn"
    using a chunk_names_valid_name [of p cs pre n ns] by blast
  then show "collect full_filename upload_to psave p (cs, ps) =
          (Inl ChunkReadFailure, cs1\<lparr>read_faults := rest\<rparr>, ps)"
    using m by (auto simp: collect_def)
  show "files (cs1\<lparr>read_faults := rest\<rparr>) = files cs"
    using files_file_loop [of cs new_tempfile pre] a by simp
next
  assume a: "is_complete p cs = Inr True \<and> chunk_names p cs = Inr (pre @ n # ns) \<and>
        file_loop cs new_tempfile pre = (Inr out1, cs1) \<and> read_faults cs1 = True # False # rest"
  then have "n \<in> fst ` set (files cs)" using chunk_names_subset [of p cs "pre @ n # ns"] by simp
  then obtain b where b: "map_of (files cs) n = Some b"
    by (cases "map_of (files cs) n") (auto simp: map_of_eq_None_iff)
  then have s: "stored cs n = b" by (simp add: stored_def)
  have "file_loop cs new_tempfile (pre @ n # ns) =
          file_loop (cs1\<lparr>read_faults := rest\<rparr>) (tf_write out1 b) ns"
    using a b by (intro file_loop_later_chunk_retried) simp_all
  then show "file_prop p cs = file_loop (cs1\<lparr>read_faults := rest\<rparr>) (tf_write out1 (stored cs n)) ns"
    using a by (simp add: file_prop_def s)
next
  assume a: "is_complete p cs = Inr True \<and> chunk_names p cs = Inr (pre @ n # ns) \<and>
        read_faults cs = replicate (length pre) False @ True # True # rest"
  have sub: "set pre \<subseteq> fst ` set (files cs)"
    using a chunk_names_subset [of p cs "pre @ n # ns"] by simp
  have pl: "file_loop cs new_tempfile pre =
     (Inr \<lparr>content = content new_tempfile @ concat (map (stored cs) pre),
           pos = length (content new_tempfile @ concat (map (stored cs) pre))\<rparr>,
      cs\<lparr>read_faults := True # True # rest\<rparr>)"
    using sub a by (intro file_loop_clean_prefix) (simp_all add: new_tempfile_def)
  have l: "file_loop cs new_tempfile (pre @ n # ns) =
      (Inl ChunkReadFailure, (cs\<lparr>read_faults := True # True # rest\<rparr>)\<lparr>read_faults := rest\<rparr>)"
    using pl by (rule file_loop_later_chunk_fails) simp
  show m: "file_prop p cs = (Inl ChunkReadFailure, cs\<lparr>read_faults := rest\<rparr>)"
    using a l by (simp add: file_prop_def)
  have "\<exists>fn. filename p = Inr fn"
    using a chunk_names_valid_name [of p cs pre n ns] by blast
  then show "collect full_filename upload_to psave p (cs, ps) =
          (Inl ChunkReadFailure, cs\<lparr>read_faults := rest\<rparr>, ps)"
    using m by (auto simp: collect_def)
next
  assume a: "is_complete p cs = Inr True \<and> chunk_names p cs = Inr (pre @ n # ns) \<and>
        read_faults cs = replicate (length pre) False @ [True]"
  have sub: "set (pre @ n # ns) \<subseteq> fst ` set (files cs)"
    using a chunk_names_subset [of p cs "pre @ n # ns"] by simp
  then obtain b where b: "map_of (files cs) n = Some b"
    by (cases "map_of (files cs) n") (auto simp: map_of_eq_None_iff)
  then have s: "stored cs n = b" by (simp add: stored_def)
  let ?o1 = "\<lparr>content = content new_tempfile @ concat (map (stored cs) pre),
           pos = length (content new_tempfile @ concat (map (stored cs) pre))\<rparr>"
  let ?c1 = "cs\<lparr>read_faults := [True]\<rparr>"
  let ?c2 = "cs\<lparr>read_faults := []\<rparr>"
  have pl: "file_loop cs new_tempfile pre = (Inr ?o1, ?c1)"
    using sub a by (intro file_loop_clean_prefix) (simp_all add: new_tempfile_def)
  have w: "write_chunk ?c1 ?o1 n = (Inr (tf_write ?o1 b), ?c2)"
    using b by (simp add: write_chunk_def storage_read_def)
  have t: "tf_write ?o1 b = \<lparr>content = content ?o1 @ b, pos = length (content ?o1 @ b)\<rparr>"
    by (rule tf_write_end) simp
  have sc: "stored ?c2 = stored cs" by (rule stored_cong) simp
  have r: "file_loop ?c2 (tf_write ?o1 b) ns =
     (Inr \<lparr>content = content (tf_write ?o1 b) @ concat (map (stored ?c2) ns),
           pos = length (content (tf_write ?o1 b) @ concat (map (stored ?c2) ns))\<rparr>, ?c2)"
    using sub by (intro file_loop_ok) (simp_all add: tf_write_def)
  have step: "file_loop cs new_tempfile (pre @ n # ns) = file_loop ?c2 (tf_write ?o1 b) ns"
    by (simp only: file_loop_append pl prod.case sum.case file_loop.simps w)
  have e: "content (tf_write ?o1 b) @ concat (map (stored ?c2) ns) = concat (map (stored cs) (pre @ n # ns))"
    by (simp add: tf_write_def sc s new_tempfile_def)
  have "file_loop cs new_tempfile (pre @ n # ns) =
     (Inr \<lparr>content = concat (map (stored cs) (pre @ n # ns)),
           pos = length (concat (map (stored cs) (pre @ n # ns)))\<rparr>, ?c2)"
    by (simp only: step r e)
  then show "file_prop p cs =
        (Inr \<lparr>content = concat (map (stored cs) (pre @ n # ns)),
              pos = length (concat (map (stored cs) (pre @ n # ns)))\<rparr>, cs\<lparr>read_faults := []\<rparr>)"
    using a by (simp add: file_prop_def)
next
  assume a: "is_complete p cs = Inr True"
  have "is_complete p (cs\<lparr>read_faults := []\<rparr>) = Inr True"
    using a is_complete_cong [of "cs\<lparr>read_faults := []\<rparr>" cs p] by simp
  from file_prop_ok [OF this]
  show "\<exists>f. file_prop p (cs\<lparr>read_faults := []\<rparr>) = (Inr f, cs\<lparr>read_faults := []\<rparr>)"
    by auto
qed

theorem chunk_read_retried_once_witness:
  "file_prop (request ''f.bin'' ''10'' ''1'' ''6'')
      \<lparr>files = [(''10_f.bin_part_0001'', ''abcdef''), (''10_f.bin_part_0002'', ''ghij'')],
       save_faults = [], read_faults = [False, True, True]\<rparr>
     = (Inl ChunkReadFailure,
        \<lparr>files = [(''10_f.bin_part_0001'', ''abcdef''), (''10_f.bin_part_0002'', ''ghij'')],
         save_faults = [], read_faults = []\<rparr>)
   \<and> collect join_path ''up/'' list_save (request ''f.bin'' ''10'' ''1'' ''6'')
        (\<lparr>files = [(''10_f.bin_part_0001'', ''abcdef''), (''10_f.bin_part_0002'', ''ghij'')],
          save_faults = [], read_faults = [False, True, True]\<rparr>, [])
     = (Inl ChunkReadFailure,
        \<lparr>files = [(''10_f.bin_part_0001'', ''abcdef''), (''10_f.bin_part_0002'', ''ghij'')],
         save_faults = [], read_faults = []\<rparr>, [])
   \<and> file_prop (request ''f.bin'' ''10'' ''1'' ''6'')
      \<lparr>files = [(''10_f.bin_part_0001'', ''abcdef''), (''10_f.bin_part_0002'', ''ghij'')],
       save_faults = [], read_faults = [True, False, True, True]\<rparr>
     = (Inl ChunkReadFailure,
        \<lparr>files = [(''10_f.bin_part_0001'', ''abcdef''), (''10_f.bin_part_0002'', ''ghij'')],
         save_faults = [], read_faults = []\<rparr>)
   \<and> file_prop (request ''f.bin'' ''10'' ''1'' ''6'')
      \<lparr>files = [(''10_f.bin_part_0001'', ''abcdef''), (''10_f.bin_part_0002'', ''ghij'')],
       save_faults = [], read_faults = [False, True]\<rparr>
     = (Inr \<lparr>content = ''abcdefghij'', pos = 10\<rparr>,
        \<lparr>files = [(''10_f.bin_part_0001'', ''abcdef''), (''10_f.bin_part_0002'', ''ghij'')],
         save_faults = [], read_faults = []\<rparr>)
   \<and> (\<exists>f. file_prop (request ''f.bin'' ''10'' ''1'' ''6'')
            \<lparr>files = [(''10_f.bin_part_0001'', ''abcdef''), (''10_f.bin_part_0002'', ''ghij'')],
             save_faults = [], read_faults = []\<rparr>
          = (Inr f, \<lparr>files = [(''10_f.bin_part_0001'', ''abcdef''), (''10_f.bin_part_0002'', ''ghij'')],
             save_faults = [], read_faults = []\<rparr>))
   \<and> write_chunk \<lparr>files = [(''3_f.bin_part_0001'', ''abc'')], save_faults = [], read_faults = [True, False, True]\<rparr>
        new_tempfile ''3_f.bin_part_0001''
     = (Inr \<lparr>content = ''abc'', pos = 3\<rparr>,
        \<lparr>files = [(''3_f.bin_part_0001'', ''abc'')], save_faults = [], read_faults = [True]\<rparr>)
   \<and> write_chunk \<lparr>files = [(''3_f.bin_part_0001'', ''abc'')], save_faults = [], read_faults = [False, True]\<rparr>
        new_tempfile ''3_f.bin_part_0001''
     = (Inr \<lparr>content = ''abc'', pos = 3\<rparr>,
        \<lparr>files = [(''3_f.bin_part_0001'', ''abc'')], save_faults = [], read_faults = [True]\<rparr>)"
proof -
  let ?p = "request ''f.bin'' ''10'' ''1'' ''6''"
  let ?fs = "[(''10_f.bin_part_0001'', ''abcdef''), (''10_f.bin_part_0002'', ''ghij'')]"
  let ?n1 = "''10_f.bin_part_0001''"
  let ?n2 = "''10_f.bin_part_0002''"
  let ?A = "\<lparr>files = ?fs, save_faults = [], read_faults = [False, True, True]\<rparr>"
  let ?B = "\<lparr>files = ?fs, save_faults = [], read_faults = [True, False, True, True]\<rparr>"
  let ?C = "\<lparr>files = ?fs, save_faults = [], read_faults = [False, True]\<rparr>"
  let ?Z = "\<lparr>files = ?fs, save_faults = [], read_faults = []\<rparr>"
  have cZ: "is_complete ?p ?Z = Inr True" by (simp add: eval_defs)
  have nZ: "chunk_names ?p ?Z = Inr ([?n1] @ ?n2 # [])" by (simp add: eval_defs)
  have cA: "is_complete ?p ?A = Inr True" using cZ is_complete_cong [of ?A ?Z ?p] by simp
  have cB: "is_complete ?p ?B = Inr True" using cZ is_complete_cong [of ?B ?Z ?p] by simp
  have cC: "is_complete ?p ?C = Inr True" using cZ is_complete_cong [of ?C ?Z ?p] by simp
  have nA: "chunk_names ?p ?A = Inr ([?n1] @ ?n2 # [])"
    by (simp add: eval_defs)
  have nB: "chunk_names ?p ?B = Inr ([?n1] @ ?n2 # [])"
    by (simp add: eval_defs)
  have nC: "chunk_names ?p ?C = Inr ([?n1] @ ?n2 # [])"
    by (simp add: eval_defs)
  have 1: "file_prop ?p ?A = (Inl ChunkReadFailure, ?Z)
           \<and> collect join_path ''up/'' list_save ?p (?A, []) = (Inl ChunkReadFailure, ?Z, [])"
    using cA nA chunk_read_retried_once
      [where p = ?p and cs = ?A and pre = "[?n1]" and n = ?n2 and ns = "[]" and rest = "[]"
         and full_filename = join_path and upload_to = "''up/''" and psave = list_save and ps = "[]"]
    by simp
  have lB: "file_loop ?B new_tempfile [?n1] =
      (Inr \<lparr>content = ''abcdef'', pos = 6\<rparr>, \<lparr>files = ?fs, save_faults = [], read_faults = [True, True]\<rparr>)"
    by (simp add: write_chunk_def storage_read_def new_tempfile_def tf_write_def)
  have 2: "file_prop ?p ?B = (Inl ChunkReadFailure, ?Z)"
    using cB nB lB chunk_read_retried_once
      [where p = ?p and cs = ?B and pre = "[?n1]" and n = ?n2 and ns = "[]" and rest = "[]"
         and ?out1.0 = "\<lparr>content = ''abcdef'', pos = 6\<rparr>"
         and ?cs1.0 = "\<lparr>files = ?fs, save_faults = [], read_faults = [True, True]\<rparr>"
         and full_filename = join_path and upload_to = "''up/''" and psave = list_save and ps = "[]"]
    by simp
  have 3: "file_prop ?p ?C = (Inr \<lparr>content = ''abcdefghij'', pos = 10\<rparr>, ?Z)"
    using cC nC chunk_read_retried_once [where p = ?p and cs = ?C and pre = "[?n1]" and n = ?n2 and ns = "[]"
         and full_filename = join_path and upload_to = "''up/''" and psave = list_save and ps = "[]"]
    by (simp add: stored_def)
  have 4: "\<exists>f. file_prop ?p ?Z = (Inr f, ?Z)"
    using cZ chunk_read_retried_once [where p = ?p and cs = ?Z
         and full_filename = join_path and upload_to = "''up/''" and psave = list_save and ps = "[]"]
    by simp
  have 5: "write_chunk \<lparr>files = [(''3_f.bin_part_0001'', ''abc'')], save_faults = [], read_faults = [True, False, True]\<rparr>
        new_tempfile ''3_f.bin_part_0001''
     = (Inr (tf_write new_tempfile ''abc''),
        \<lparr>files = [(''3_f.bin_part_0001'', ''abc'')], save_faults = [], read_faults = [True]\<rparr>)"
    using chunk_read_retried_once
      [where cs = "\<lparr>files = [(''3_f.bin_part_0001'', ''abc'')], save_faults = [], read_faults = [True, False, True]\<rparr>"
         and rest = "[True]" and chunk = "''3_f.bin_part_0001''" and b = "''abc''" and out = new_tempfile
         and p = ?p and pre = "[]" and n = ?n1 and ns = "[]" and ?out1.0 = new_tempfile and ?cs1.0 = ?Z
         and full_filename = join_path and upload_to = "''up/''" and psave = list_save and ps = "[]"]
    by simp
  have 6: "write_chunk \<lparr>files = [(''3_f.bin_part_0001'', ''abc'')], save_faults = [], read_faults = [False, True]\<rparr>
        new_tempfile ''3_f.bin_part_0001''
     = (Inr (tf_write new_tempfile ''abc''),
        \<lparr>files = [(''3_f.bin_part_0001'', ''abc'')], save_faults = [], read_faults = [True]\<rparr>)"
    using chunk_read_retried_once
      [where cs = "\<lparr>files = [(''3_f.bin_part_0001'', ''abc'')], save_faults = [], read_faults = [False, True]\<rparr>"
         and rest = "[True]" and chunk = "''3_f.bin_part_0001''" and b = "''abc''" and out = new_tempfile
         and p = ?p and pre = "[]" and n = ?n1 and ns = "[]" and ?out1.0 = new_tempfile and ?cs1.0 = ?Z
         and full_filename = join_path and upload_to = "''up/''" and psave = list_save and ps = "[]"]
    by simp
  have t: "tf_write new_tempfile ''abc'' = \<lparr>content = ''abc'', pos = 3\<rparr>"
    by (simp add: tf_write_def new_tempfile_def)
  show ?thesis using 1 2 3 4 5 6 by (simp add: t)
qed

subsection \<open>The handle of the merged file\<close>

text \<open>
  C8 (as amended). When the merge succeeds, the handle it returns stands at the end
  of the merged content: a read from it returns no bytes, and the merged bytes are
  read after the handle has been moved back to offset 0.
\<close>

theorem merged_handle_at_end:
  "file_prop p cs = (Inr f, cs') \<Longrightarrow>
   pos f = length (content f) \<and> tf_read f = [] \<and> tf_read (f\<lparr>pos := 0\<rparr>) = content f"
proof -
  assume a: "file_prop p cs = (Inr f, cs')"
  then obtain names where "file_loop cs new_tempfile names = (Inr f, cs')"
    by (auto simp: file_prop_def split: sum.splits if_splits)
  then have "pos f = length (content f)"
    by (rule file_loop_pos) (simp add: new_tempfile_def)
  then show ?thesis by (simp add: tf_read_def)
qed

theorem merged_handle_at_end_witness:
  "file_prop (request ''f.bin'' ''10'' ''1'' ''6'')
      (reliable [(''10_f.bin_part_0002'', ''ghij''), (''10_f.bin_part_0001'', ''abcdef'')])
     = (Inr \<lparr>content = ''abcdefghij'', pos = 10\<rparr>,
        reliable [(''10_f.bin_part_0002'', ''ghij''), (''10_f.bin_part_0001'', ''abcdef'')])
   \<and> pos \<lparr>content = ''abcdefghij'', pos = 10\<rparr> = length (content \<lparr>content = ''abcdefghij'', pos = 10\<rparr>)
   \<and> tf_read \<lparr>content = ''abcdefghij'', pos = 10\<rparr> = []
   \<and> tf_read (\<lparr>content = ''abcdefghij'', pos = 10\<rparr>\<lparr>pos := 0\<rparr>) = ''abcdefghij''"
proof -
  have h: "file_prop (request ''f.bin'' ''10'' ''1'' ''6'')
      (reliable [(''10_f.bin_part_0002'', ''ghij''), (''10_f.bin_part_0001'', ''abcdef'')])
     = (Inr \<lparr>content = ''abcdefghij'', pos = 10\<rparr>,
        reliable [(''10_f.bin_part_0002'', ''ghij''), (''10_f.bin_part_0001'', ''abcdef'')])"
    by (simp add: eval_defs)
  show ?thesis using h merged_handle_at_end [OF h] by simp
qed

text \<open>
  The claim as stated fails: after the merge of a complete upload of three bytes the
  handle stands at offset 3, and a read from it returns nothing.
\<close>

theorem merged_handle_not_at_start:
  "file_prop (request ''f.bin'' ''3'' ''1'' ''3'') (reliable [(''3_f.bin_part_0001'', ''abc'')])
     = (Inr \<lparr>content = ''abc'', pos = 3\<rparr>, reliable [(''3_f.bin_part_0001'', ''abc'')])
   \<and> pos \<lparr>content = ''abc'', pos = 3\<rparr> \<noteq> 0
   \<and> tf_read \<lparr>content = ''abc'', pos = 3\<rparr> \<noteq> ''abc''"
  by (simp add: eval_defs)

subsection \<open>Overwriting a chunk\<close>

text \<open>
  C9. \<open>process_chunk\<close> on a chunk name that exists deletes the chunk and then saves
  the new bytes. When that save fails, \<open>process_chunk\<close> fails, and the storage it
  leaves is the one after the deletion: no chunk has that name any more.
\<close>

theorem process_chunk_overwrite_not_atomic:
  "current_chunk_name p = Inr name \<Longrightarrow> storage_exists cs name \<Longrightarrow> save_faults cs = True # fs \<Longrightarrow>
   process_chunk p data cs = (Inl ChunkStoreFailure, (storage_delete cs name)\<lparr>save_faults := fs\<rparr>)
   \<and> \<not> storage_exists (snd (process_chunk p data cs)) name
   \<and> map_of (files (snd (process_chunk p data cs))) name = None"
  by (simp add: process_chunk_def storage_save_def storage_exists_def map_of_eq_None_iff image_iff)

theorem process_chunk_overwrite_not_atomic_witness:
  "current_chunk_name (request ''f.bin'' ''3'' ''1'' ''3'') = Inr ''3_f.bin_part_0001''
   \<and> storage_exists \<lparr>files = [(''3_f.bin_part_0001'', ''abc''), (''other'', ''zz'')],
                      save_faults = [True], read_faults = []\<rparr> ''3_f.bin_part_0001''
   \<and> process_chunk (request ''f.bin'' ''3'' ''1'' ''3'') ''xyz''
        \<lparr>files = [(''3_f.bin_part_0001'', ''abc''), (''other'', ''zz'')], save_faults = [True], read_faults = []\<rparr>
      = (Inl ChunkStoreFailure, \<lparr>files = [(''other'', ''zz'')], save_faults = [], read_faults = []\<rparr>)"
proof -
  let ?cs = "\<lparr>files = [(''3_f.bin_part_0001'', ''abc''), (''other'', ''zz'')],
              save_faults = [True], read_faults = []\<rparr>"
  have n: "current_chunk_name (request ''f.bin'' ''3'' ''1'' ''3'') = Inr ''3_f.bin_part_0001''"
    by (simp add: eval_defs eval_nat_numeral)
  have e: "storage_exists ?cs ''3_f.bin_part_0001''" by (simp add: storage_exists_def)
  have s: "save_faults ?cs = True # []" by simp
  show ?thesis
    using n e process_chunk_overwrite_not_atomic [OF n e s, of "''xyz''"]
    by (simp add: storage_delete_def)
qed

subsection \<open>Wildcards in the file name\<close>

text \<open>
  C10. A file name is rejected exactly when it contains \<^verbatim>\<open>/\<close>, so names with
  \<^verbatim>\<open>*\<close>, \<^verbatim>\<open>?\<close> or \<^verbatim>\<open>[\<close> are accepted. The identity is used as it is in the
  pattern of the listing: for the name \<^verbatim>\<open>a*\<close> of declared size 3 the listing contains
  the chunk \<^verbatim>\<open>3_abc_part_0001\<close> of another upload, a name that does not start with
  the identity and the suffix, and the size, the completeness and the merge of the
  upload \<^verbatim>\<open>a*\<close> are those of the other upload's chunk.
\<close>

theorem wildcard_filename_lists_foreign_chunks:
  "(\<forall>p. (\<exists>fn. filename p = Inr fn) = (CHR ''/'' \<notin> set (resumableFilename p)))
   \<and> filename (request ''a*'' ''3'' ''1'' ''3'') = Inr ''3_a*''
   \<and> filename (request ''a?[b'' ''3'' ''1'' ''3'') = Inr ''3_a?[b''
   \<and> chunk_names (request ''a*'' ''3'' ''1'' ''3'') (reliable [(''3_abc_part_0001'', ''xyz'')])
        = Inr [''3_abc_part_0001'']
   \<and> \<not> prefix (''3_a*'' @ chunk_suffix) ''3_abc_part_0001''
   \<and> size_chunks (request ''a*'' ''3'' ''1'' ''3'') (reliable [(''3_abc_part_0001'', ''xyz'')]) = Inr 3
   \<and> is_complete (request ''a*'' ''3'' ''1'' ''3'') (reliable [(''3_abc_part_0001'', ''xyz'')]) = Inr True
   \<and> fst (file_prop (request ''a*'' ''3'' ''1'' ''3'') (reliable [(''3_abc_part_0001'', ''xyz'')]))
        = Inr \<lparr>content = ''xyz'', pos = 3\<rparr>"
proof (intro conjI)
  show "\<forall>p. (\<exists>fn. filename p = Inr fn) = (CHR ''/'' \<notin> set (resumableFilename p))"
    by (simp add: filename_def)
qed (simp_all add: eval_defs)

subsection \<open>Decimal numerals padded to four digits\<close>

lemma digit_char_0: "digit_char 0 = CHR ''0''"
proof -
  have "(of_char (digit_char 0) :: nat) = of_char CHR ''0''" by (simp add: digit_char_def)
  then show ?thesis by (simp only: of_char_eq_iff)
qed

lemma digit_char_of: "d < 10 \<Longrightarrow> (of_char (digit_char d) :: nat) = 48 + d"
  by (simp add: digit_char_def)

lemma digit_char_less: "a < 10 \<Longrightarrow> b < 10 \<Longrightarrow> (digit_char a < digit_char b) = (a < b)"
  by (simp add: less_char_def digit_char_of)

lemma digit_char_eq: "a < 10 \<Longrightarrow> b < 10 \<Longrightarrow> (digit_char a = digit_char b) = (a = b)"
  using digit_char_of [of a] digit_char_of [of b] by (metis add_left_cancel)

lemma digit_char_not_sign: "d < 10 \<Longrightarrow> digit_char d \<noteq> CHR ''+'' \<and> digit_char d \<noteq> CHR ''-''"
  using digit_char_of [of d] by auto

lemma decimal_lt10: "n < 10 \<Longrightarrow> decimal n = [digit_char n]"
  by (simp add: decimal.simps)

lemma decimal_ge10: "10 \<le> n \<Longrightarrow> decimal n = decimal (n div 10) @ [digit_char (n mod 10)]"
  by (subst decimal.simps) simp



lemma replicate_small:
  "replicate 1 x = [x]" "replicate 2 x = [x, x]" "replicate 3 x = [x, x, x]"
  "replicate 4 x = [x, x, x, x]"
  by (simp_all add: eval_nat_numeral)

lemma zfill4_lists:
  "a \<noteq> CHR ''+'' \<and> a \<noteq> CHR ''-'' \<Longrightarrow> zfill 4 [a] = [CHR ''0'', CHR ''0'', CHR ''0'', a]"
  "a \<noteq> CHR ''+'' \<and> a \<noteq> CHR ''-'' \<Longrightarrow> zfill 4 [a, b] = [CHR ''0'', CHR ''0'', a, b]"
  "a \<noteq> CHR ''+'' \<and> a \<noteq> CHR ''-'' \<Longrightarrow> zfill 4 [a, b, c] = [CHR ''0'', a, b, c]"
  "zfill 4 [a, b, c, d] = [a, b, c, d]"
  by (simp_all add: zfill_def replicate_small)

lemma decimal_2: "10 \<le> n \<Longrightarrow> n < 100 \<Longrightarrow> decimal n = [digit_char (n div 10), digit_char (n mod 10)]"
  by (simp add: decimal_ge10 decimal_lt10)

lemma decimal_3:
  assumes "100 \<le> n" "n < 1000"
  shows "decimal n = [digit_char (n div 100), digit_char (n div 10 mod 10), digit_char (n mod 10)]"
proof -
  have q: "n div 10 div 10 = n div 100" by (simp add: div_mult2_eq [symmetric])
  have a: "10 \<le> n div 10" "n div 10 < 100" "10 \<le> n" using assms by simp_all
  show ?thesis
    by (simp only: decimal_ge10 [OF a(3)] decimal_2 [OF a(1) a(2)] q append.simps)
qed

lemma decimal_4:
  assumes "1000 \<le> n" "n < 10000"
  shows "decimal n = [digit_char (n div 1000), digit_char (n div 100 mod 10),
     digit_char (n div 10 mod 10), digit_char (n mod 10)]"
proof -
  have q: "n div 10 div 100 = n div 1000" "n div 10 div 10 = n div 100"
    by (simp_all add: div_mult2_eq [symmetric])
  have a: "100 \<le> n div 10" "n div 10 < 1000" "10 \<le> n" using assms by simp_all
  have m: "n div 10 div 10 mod 10 = n div 100 mod 10" by (simp only: q)
  show ?thesis
    by (simp only: decimal_ge10 [OF a(3)] decimal_3 [OF a(1) a(2)] q m append.simps)
qed

lemma zfill4_decimal:
  assumes "n < 10000"
  shows "zfill 4 (decimal n) =
           [digit_char (n div 1000), digit_char (n div 100 mod 10), digit_char (n div 10 mod 10),
            digit_char (n mod 10)]"
proof -
  consider "n < 10" | "10 \<le> n" "n < 100" | "100 \<le> n" "n < 1000" | "1000 \<le> n" "n < 10000"
    using assms by linarith
  then show ?thesis
  proof cases
    case 1
    have a: "n div 1000 = 0" "n div 100 = 0" "n div 10 = 0" "n mod 10 = n" using 1 by simp_all
    show ?thesis
      by (simp only: decimal_lt10 [OF 1] zfill4_lists(1) [OF digit_char_not_sign [OF 1]] a
          mod_0 digit_char_0)
  next
    case 2
    have a: "n div 1000 = 0" "n div 100 = 0" "n div 10 mod 10 = n div 10" "n div 10 < 10"
      using 2 by simp_all
    show ?thesis
      by (simp only: decimal_2 [OF 2] zfill4_lists(2) [OF digit_char_not_sign [OF a(4)]] a
          mod_0 digit_char_0)
  next
    case 3
    have a: "n div 1000 = 0" "n div 100 mod 10 = n div 100" "n div 100 < 10"
      using 3 by simp_all
    show ?thesis
      by (simp only: decimal_3 [OF 3] zfill4_lists(3) [OF digit_char_not_sign [OF a(3)]] a
          digit_char_0)
  next
    case 4
    show ?thesis by (simp only: decimal_4 [OF 4] zfill4_lists(4))
  qed
qed

lemma less_by_digits_aux:
  "ra < 10 \<Longrightarrow> rb < 10 \<Longrightarrow> ((10 * qa + ra :: nat) < 10 * qb + rb) = (qa < qb \<or> qa = qb \<and> ra < rb)"
  by linarith

lemma less_by_digits:
  "((a::nat) < b) = (a div 10 < b div 10 \<or> a div 10 = b div 10 \<and> a mod 10 < b mod 10)"
proof -
  have "(10 * (a div 10) + a mod 10 < 10 * (b div 10) + b mod 10) =
        (a div 10 < b div 10 \<or> a div 10 = b div 10 \<and> a mod 10 < b mod 10)"
    by (rule less_by_digits_aux) simp_all
  then show ?thesis by (simp only: mult_div_mod_eq)
qed

lemma zfill4_decimal_less:
  assumes "i < j" "j < 10000"
  shows "zfill 4 (decimal i) < zfill 4 (decimal j)"
proof -
  have i: "i < 10000" using assms by simp
  have b: "i div 1000 < 10" "j div 1000 < 10" using assms by simp_all
  have m: "\<And>x::nat. x mod 10 < 10" by simp
  have q: "\<And>n::nat. n div 10 div 10 = n div 100" "\<And>n::nat. n div 100 div 10 = n div 1000"
    by (simp_all add: div_mult2_eq [symmetric])
  have 1: "i div 10 < j div 10 \<or> i div 10 = j div 10 \<and> i mod 10 < j mod 10"
    using assms(1) less_by_digits [of i j] by simp
  have 2: "(i div 10 < j div 10) =
     (i div 100 < j div 100 \<or> i div 100 = j div 100 \<and> i div 10 mod 10 < j div 10 mod 10)"
    using less_by_digits [of "i div 10" "j div 10"] by (simp only: q)
  have 3: "(i div 100 < j div 100) =
     (i div 1000 < j div 1000 \<or> i div 1000 = j div 1000 \<and> i div 100 mod 10 < j div 100 mod 10)"
    using less_by_digits [of "i div 100" "j div 100"] by (simp only: q)
  have e3: "i div 100 = j div 100 \<Longrightarrow> i div 1000 = j div 1000"
  proof -
    assume "i div 100 = j div 100"
    then have "i div 100 div 10 = j div 100 div 10" by (rule arg_cong)
    then show ?thesis by (simp only: q)
  qed
  have e2: "i div 10 = j div 10 \<Longrightarrow> i div 100 = j div 100"
  proof -
    assume "i div 10 = j div 10"
    then have "i div 10 div 10 = j div 10 div 10" by (rule arg_cong)
    then show ?thesis by (simp only: q)
  qed
  have "i div 1000 < j div 1000
        \<or> i div 1000 = j div 1000 \<and> (i div 100 mod 10 < j div 100 mod 10
        \<or> i div 100 mod 10 = j div 100 mod 10 \<and> (i div 10 mod 10 < j div 10 mod 10
        \<or> i div 10 mod 10 = j div 10 mod 10 \<and> i mod 10 < j mod 10))"
  proof (cases "i div 10 = j div 10")
    case True
    then show ?thesis using 1 e2 e3 by simp
  next
    case False
    then have l1: "i div 10 < j div 10" using 1 by simp
    show ?thesis
    proof (cases "i div 100 = j div 100")
      case True
      then show ?thesis using l1 2 e3 by simp
    next
      case False
      then have l2: "i div 100 < j div 100" using l1 2 by simp
      show ?thesis
      proof (cases "i div 1000 = j div 1000")
        case True
        then show ?thesis using l2 3 by simp
      next
        case False
        then show ?thesis using l2 3 by simp
      qed
    qed
  qed
  then show ?thesis
    by (simp add: zfill4_decimal [OF i] zfill4_decimal [OF assms(2)] digit_char_less digit_char_eq b m)
qed

lemma append_less_iff: "((a::string) @ x < a @ y) = (x < y)"
  by (induction a) simp_all


lemma part_name_less: "i < j \<Longrightarrow> j < 10000 \<Longrightarrow> part_name fn i < part_name fn j"
  by (simp add: part_name_def append_less_iff zfill4_decimal_less)

subsection \<open>The pattern matches the names of its own upload\<close>

lemma glob_match_star_skip: "glob_match gs xs \<Longrightarrow> glob_match (Star # gs) xs"
  by (cases xs) simp_all

lemma glob_match_star_all: "glob_match [Star] s"
  by (induction s) simp_all

lemma fnmatch_own_prefix:
  "CHR ''['' \<notin> set pre \<Longrightarrow> glob_match (translate (pre @ ''*'')) (pre @ s)"
proof (induction pre)
  case Nil
  then show ?case by (simp add: glob_match_star_all)
next
  case (Cons c pre)
  then have ih: "glob_match (translate (pre @ ''*'')) (pre @ s)" and c: "c \<noteq> CHR ''[''"
    by auto
  show ?case using ih c by (simp add: glob_match_star_skip)
qed

lemma fnmatch_part_name:
  "CHR ''['' \<notin> set fn \<Longrightarrow> fnmatch (part_name fn i) (fn @ chunk_suffix @ ''*'')"
proof -
  assume "CHR ''['' \<notin> set fn"
  then have "CHR ''['' \<notin> set (fn @ chunk_suffix)" by (simp add: chunk_suffix_def)
  from fnmatch_own_prefix [OF this, of "zfill 4 (decimal i)"]
  show ?thesis by (simp add: fnmatch_def part_name_def)
qed

lemma filename_chunk_request [simp]: "filename (chunk_request p i data) = filename p"
  by (simp add: filename_def chunk_request_def)

lemma current_chunk_name_chunk_request:
  "filename p = Inr fn \<Longrightarrow> current_chunk_name (chunk_request p i data) = Inr (part_name fn i)"
  by (simp add: current_chunk_name_def part_name_def) (simp add: chunk_request_def)

lemma filter_absent: "name \<notin> fst ` set fs \<Longrightarrow> filter (\<lambda>kv. fst kv \<noteq> name) fs = fs"
  by (induction fs) auto

lemma process_chunk_ok:
  assumes "current_chunk_name q = Inr name" and "save_faults cs = []"
  shows "process_chunk q data cs =
           (Inr (), cs\<lparr>files := (name, data) # filter (\<lambda>kv. fst kv \<noteq> name) (files cs)\<rparr>)"
proof (cases "storage_exists cs name")
  case True
  then show ?thesis using assms
    by (simp add: process_chunk_def storage_save_def storage_delete_def)
next
  case False
  then have "name \<notin> fst ` set (files cs)"
    by (simp add: storage_exists_def map_of_eq_None_iff)
  then have "filter (\<lambda>kv. fst kv \<noteq> name) (files cs) = files cs" by (rule filter_absent)
  then show ?thesis using assms False
    by (simp add: process_chunk_def storage_save_def)
qed

lemma map_of_filter_key:
  "map_of (filter (\<lambda>kv. fst kv \<noteq> name) fs) k = (if k = name then None else map_of fs k)"
  by (induction fs) auto

lemma count_list_filter_key:
  "count_list (map fst (filter (\<lambda>kv. fst kv \<noteq> name) fs)) k =
     (if k = name then 0 else count_list (map fst fs) k)"
  by (induction fs) auto

subsection \<open>The storage after a sequence of chunk requests\<close>

lemma process_all_step:
  assumes "filename p = Inr fn" and "save_faults cs = []"
  shows "process_all p ((i, data) # rest) cs =
           process_all p rest (cs\<lparr>files := (part_name fn i, data) #
              filter (\<lambda>kv. fst kv \<noteq> part_name fn i) (files cs)\<rparr>)"
  using process_chunk_ok [OF current_chunk_name_chunk_request [OF assms(1), of i data] assms(2), of data]
  by simp

lemma process_all_succeeds:
  assumes "filename p = Inr fn"
  shows "save_faults cs = [] \<Longrightarrow>
         fst (process_all p (map (\<lambda>i. (i, pl i)) os) cs) = Inr ()
         \<and> save_faults (snd (process_all p (map (\<lambda>i. (i, pl i)) os) cs)) = []
         \<and> read_faults (snd (process_all p (map (\<lambda>i. (i, pl i)) os) cs)) = read_faults cs"
proof (induction os arbitrary: cs)
  case Nil
  then show ?case by simp
next
  case (Cons i os)
  let ?cs1 = "cs\<lparr>files := (part_name fn i, pl i) # filter (\<lambda>kv. fst kv \<noteq> part_name fn i) (files cs)\<rparr>"
  have s: "save_faults ?cs1 = []" using Cons.prems by simp
  show ?case using Cons.IH [OF s] by (simp add: process_all_step [OF assms Cons.prems] del: process_all.simps)
qed

lemma process_all_count:
  assumes "filename p = Inr fn"
  shows "save_faults cs = [] \<Longrightarrow>
         count_list (map fst (files (snd (process_all p (map (\<lambda>i. (i, pl i)) os) cs)))) k =
           (if k \<in> part_name fn ` set os then 1 else count_list (map fst (files cs)) k)"
proof (induction os arbitrary: cs)
  case Nil
  then show ?case by simp
next
  case (Cons i os)
  let ?cs1 = "cs\<lparr>files := (part_name fn i, pl i) # filter (\<lambda>kv. fst kv \<noteq> part_name fn i) (files cs)\<rparr>"
  have s: "save_faults ?cs1 = []" using Cons.prems by simp
  show ?case using Cons.IH [OF s]
    by (simp add: process_all_step [OF assms Cons.prems] count_list_filter_key del: process_all.simps)
qed

lemma process_all_other:
  assumes "filename p = Inr fn"
  shows "save_faults cs = [] \<Longrightarrow> k \<notin> part_name fn ` set os \<Longrightarrow>
         map_of (files (snd (process_all p (map (\<lambda>i. (i, pl i)) os) cs))) k = map_of (files cs) k"
proof (induction os arbitrary: cs)
  case Nil
  then show ?case by simp
next
  case (Cons i os)
  let ?cs1 = "cs\<lparr>files := (part_name fn i, pl i) # filter (\<lambda>kv. fst kv \<noteq> part_name fn i) (files cs)\<rparr>"
  have s: "save_faults ?cs1 = []" using Cons.prems by simp
  have k: "k \<notin> part_name fn ` set os" "k \<noteq> part_name fn i" using Cons.prems(2) by auto
  show ?case using Cons.IH [OF s k(1)] k(2)
    by (simp add: process_all_step [OF assms Cons.prems(1)] map_of_filter_key del: process_all.simps)
qed

lemma process_all_stored:
  assumes "filename p = Inr fn"
  shows "save_faults cs = [] \<Longrightarrow> inj_on (part_name fn) (set os) \<Longrightarrow> distinct os \<Longrightarrow> j \<in> set os \<Longrightarrow>
         map_of (files (snd (process_all p (map (\<lambda>i. (i, pl i)) os) cs))) (part_name fn j) = Some (pl j)"
proof (induction os arbitrary: cs)
  case Nil
  then show ?case by simp
next
  case (Cons i os)
  let ?cs1 = "cs\<lparr>files := (part_name fn i, pl i) # filter (\<lambda>kv. fst kv \<noteq> part_name fn i) (files cs)\<rparr>"
  have s: "save_faults ?cs1 = []" using Cons.prems by simp
  have st: "process_all p ((i, pl i) # map (\<lambda>i. (i, pl i)) os) cs = process_all p (map (\<lambda>i. (i, pl i)) os) ?cs1"
    by (simp add: process_all_step [OF assms Cons.prems(1)] del: process_all.simps)
  have inj: "inj_on (part_name fn) (set os)" and d: "distinct os" and ni: "i \<notin> set os"
    using Cons.prems by simp_all
  show ?case
  proof (cases "j = i")
    case True
    have "part_name fn i \<notin> part_name fn ` set os"
      using Cons.prems(2) ni by (auto simp: inj_on_def)
    from process_all_other [OF assms s this, of pl]
    show ?thesis using True by (simp add: st del: process_all.simps)
  next
    case False
    then have "j \<in> set os" using Cons.prems(4) by simp
    from Cons.IH [OF s inj d this] show ?thesis by (simp add: st del: process_all.simps)
  qed
qed

lemma count_le_1_distinct: "(\<And>x. count_list xs x \<le> 1) \<Longrightarrow> distinct xs"
proof (induction xs)
  case Nil
  then show ?case by simp
next
  case (Cons a xs)
  have "count_list xs a = 0" using Cons.prems [of a] by simp
  then have a: "a \<notin> set xs" by (simp add: count_list_0_iff)
  have "\<And>x. count_list xs x \<le> 1"
  proof -
    fix x
    show "count_list xs x \<le> 1" using Cons.prems [of x] by (simp split: if_splits)
  qed
  then have "distinct xs" by (rule Cons.IH)
  then show ?case using a by simp
qed

lemma count_list_filter: "count_list (filter P xs) k = (if P k then count_list xs k else 0)"
  by (induction xs) auto

lemma size_loop_ok:
  "set names \<subseteq> fst ` set (files cs) \<Longrightarrow>
   size_loop cs names acc = Inr (acc + length (concat (map (stored cs) names)))"
proof (induction names arbitrary: acc)
  case Nil
  then show ?case by simp
next
  case (Cons n ns)
  from Cons.prems obtain b where b: "map_of (files cs) n = Some b"
    by (cases "map_of (files cs) n") (auto simp: map_of_eq_None_iff)
  have "set ns \<subseteq> fst ` set (files cs)" using Cons.prems by simp
  from Cons.IH [OF this, of "acc + length b"] b show ?case
    by (simp add: storage_size_def stored_def)
qed

lemma is_complete_eq:
  assumes "chunk_names p cs = Inr names" and "py_int (resumableTotalSize p) = Inr d"
  shows "is_complete p cs = Inr (d = int (length (concat (map (stored cs) names))))"
  using assms size_loop_ok [OF chunk_names_subset [OF assms(1)], of 0]
  by (simp add: is_complete_def size_chunks_def)

lemma upload_chunk_names:
  assumes f: "filename p = Inr fn" and nb: "CHR ''['' \<notin> set fn" and sf: "save_faults cs = []"
    and fresh: "\<forall>n\<in>set (storage_listdir cs). \<not> fnmatch n (fn @ chunk_suffix @ ''*'')"
    and inj: "inj_on (part_name fn) (set os)" and d: "distinct os"
  shows "chunk_names p (snd (process_all p (map (\<lambda>i. (i, pl i)) os) cs)) =
           Inr (sort (map (part_name fn) os))"
proof -
  let ?cs' = "snd (process_all p (map (\<lambda>i. (i, pl i)) os) cs)"
  let ?m = "\<lambda>n. fnmatch n (fn @ chunk_suffix @ ''*'')"
  let ?M = "filter ?m (storage_listdir ?cs')"
  have cnt: "\<And>k. count_list (storage_listdir ?cs') k =
      (if k \<in> part_name fn ` set os then 1 else count_list (storage_listdir cs) k)"
    unfolding storage_listdir_def by (rule process_all_count [OF f sf])
  have old: "\<And>k. ?m k \<Longrightarrow> count_list (storage_listdir cs) k = 0"
    using fresh by (auto simp: count_list_0_iff)
  have own: "\<And>k. k \<in> part_name fn ` set os \<Longrightarrow> ?m k"
    using fnmatch_part_name [OF nb] by auto
  have cM: "\<And>k. count_list ?M k = (if k \<in> part_name fn ` set os then 1 else 0)"
    using cnt old own by (simp add: count_list_filter)
  have dM: "distinct ?M" by (rule count_le_1_distinct) (simp add: cM)
  have sM: "set ?M = part_name fn ` set os"
  proof -
    have "\<And>k. (k \<in> set ?M) = (k \<in> part_name fn ` set os)"
    proof -
      fix k
      have "(k \<in> set ?M) = (count_list ?M k \<noteq> 0)" by (simp only: count_list_0_iff) simp
      then show "(k \<in> set ?M) = (k \<in> part_name fn ` set os)" by (simp add: cM)
    qed
    then show ?thesis by blast
  qed
  have "sort ?M = sort (map (part_name fn) os)"
  proof (rule sorted_distinct_set_unique)
    show "distinct (sort (map (part_name fn) os))" using inj d by (simp add: distinct_map)
    show "set (sort ?M) = set (sort (map (part_name fn) os))" using sM by simp
  qed (simp_all add: dM)
  then have "filter ?m (sort (storage_listdir ?cs')) = sort (map (part_name fn) os)"
    by (simp add: filter_sort)
  then show ?thesis using chunk_names_valid [OF f, of ?cs'] by simp
qed

lemma upload_merge:
  assumes f: "filename p = Inr fn" and nb: "CHR ''['' \<notin> set fn" and sf: "save_faults cs = []"
    and rf: "read_faults cs = []"
    and fresh: "\<forall>n\<in>set (storage_listdir cs). \<not> fnmatch n (fn @ chunk_suffix @ ''*'')"
    and inj: "inj_on (part_name fn) (set os)" and d: "distinct os"
    and tot: "py_int (resumableTotalSize p) = Inr t"
  shows "\<exists>cs'. process_all p (map (\<lambda>i. (i, pl i)) os) cs = (Inr (), cs')
           \<and> chunk_names p cs' = Inr (sort (map (part_name fn) os))
           \<and> (\<forall>i\<in>set os. stored cs' (part_name fn i) = pl i)
           \<and> is_complete p cs' =
               Inr (t = int (length (concat (map (stored cs') (sort (map (part_name fn) os))))))
           \<and> (t = int (length (concat (map (stored cs') (sort (map (part_name fn) os))))) \<longrightarrow>
               file_prop p cs' =
                 (Inr \<lparr>content = concat (map (stored cs') (sort (map (part_name fn) os))),
                       pos = length (concat (map (stored cs') (sort (map (part_name fn) os))))\<rparr>, cs'))"
proof -
  let ?R = "process_all p (map (\<lambda>i. (i, pl i)) os) cs"
  let ?cs' = "snd ?R"
  have r: "?R = (Inr (), ?cs')" and rf': "read_faults ?cs' = []"
    using process_all_succeeds [OF f sf, of pl os] rf by (simp_all add: prod_eq_iff)
  have n: "chunk_names p ?cs' = Inr (sort (map (part_name fn) os))"
    by (rule upload_chunk_names [OF f nb sf fresh inj d])
  have st: "\<forall>i\<in>set os. stored ?cs' (part_name fn i) = pl i"
    using process_all_stored [OF f sf inj d, of _ pl] by (simp add: stored_def)
  have c: "is_complete p ?cs' =
      Inr (t = int (length (concat (map (stored ?cs') (sort (map (part_name fn) os))))))"
    by (rule is_complete_eq [OF n tot])
  have m: "t = int (length (concat (map (stored ?cs') (sort (map (part_name fn) os))))) \<longrightarrow>
               file_prop p ?cs' =
                 (Inr \<lparr>content = concat (map (stored ?cs') (sort (map (part_name fn) os))),
                       pos = length (concat (map (stored ?cs') (sort (map (part_name fn) os))))\<rparr>, ?cs')"
  proof
    assume "t = int (length (concat (map (stored ?cs') (sort (map (part_name fn) os)))))"
    then have "is_complete p ?cs' = Inr True" using c by simp
    from file_prop_ok [OF this rf'] n show "file_prop p ?cs' =
                 (Inr \<lparr>content = concat (map (stored ?cs') (sort (map (part_name fn) os))),
                       pos = length (concat (map (stored ?cs') (sort (map (part_name fn) os))))\<rparr>, ?cs')"
      by simp
  qed
  show ?thesis using r n st c m by blast
qed

lemma part_name_inj_on: "inj_on (part_name fn) {1..n}" if "n \<le> 9999"
proof (rule inj_onI)
  fix i j assume a: "i \<in> {1..n}" "j \<in> {1..n}" "part_name fn i = part_name fn j"
  have b: "i < 10000" "j < 10000" using a that by simp_all
  show "i = j"
  proof (rule ccontr)
    assume "i \<noteq> j"
    then consider "i < j" | "j < i" by linarith
    then show False
      using part_name_less [of i j fn] part_name_less [of j i fn] a(3) b by cases simp_all
  qed
qed

lemma sorted_part_names: "n \<le> 9999 \<Longrightarrow> sorted (map (part_name fn) [1..<Suc n])"
proof -
  assume n: "n \<le> 9999"
  have "sorted_wrt (<) [1..<Suc n]" by (rule sorted_wrt_upt)
  then have "sorted_wrt (\<lambda>i j. part_name fn i \<le> part_name fn j) [1..<Suc n]"
  proof (rule sorted_wrt_mono_rel [rotated])
    fix i j assume "i \<in> set [1..<Suc n]" "j \<in> set [1..<Suc n]" "i < j"
    then have "i < j" "j < 10000" using n by (simp_all del: upt_Suc)
    then have "part_name fn i < part_name fn j" by (rule part_name_less)
    then show "part_name fn i \<le> part_name fn j" by simp
  qed
  then show ?thesis by (simp add: sorted_map)
qed

lemma map_nth_from_1: "map (\<lambda>i. xs ! (i - 1)) [1..<Suc (length xs)] = xs"
proof -
  have "[1..<Suc (length xs)] = map Suc [0..<length xs]" by (simp add: map_Suc_upt del: upt_Suc)
  then have "map (\<lambda>i. xs ! (i - 1)) [1..<Suc (length xs)] = map (\<lambda>i. xs ! i) [0..<length xs]"
    by (simp only: map_map) simp
  then show ?thesis by (simp add: map_nth)
qed

subsection \<open>Uploading the chunks in any order\<close>

text \<open>
  C1 (as amended). Take an upload of at most 9999 chunks, numbered from 1, whose
  payload lengths add up to the declared total size, a valid file name whose identity
  contains no \<^verbatim>\<open>[\<close>, and a chunk storage without faults in which no name matches
  the pattern of the upload. After the chunks have been processed in any order,
  every request succeeds, \<open>is_complete\<close> returns true, and the merge writes the
  payloads concatenated in the order of their chunk numbers.
\<close>

theorem upload_in_any_order_merges_by_index:
  assumes "filename p = Inr fn" and "CHR ''['' \<notin> set fn"
    and "length payloads \<le> 9999"
    and "distinct order" and "set order = {1..length payloads}"
    and "py_int (resumableTotalSize p) = Inr (int (length (concat payloads)))"
    and "\<forall>n\<in>set (storage_listdir cs). \<not> fnmatch n (fn @ chunk_suffix @ ''*'')"
    and "save_faults cs = []" and "read_faults cs = []"
  shows "\<exists>cs'. process_all p (map (\<lambda>i. (i, payloads ! (i - 1))) order) cs = (Inr (), cs')
           \<and> is_complete p cs' = Inr True
           \<and> file_prop p cs' =
               (Inr \<lparr>content = concat payloads, pos = length (concat payloads)\<rparr>, cs')"
proof -
  let ?N = "length payloads"
  let ?pl = "\<lambda>i. payloads ! (i - 1)"
  have inj: "inj_on (part_name fn) (set order)"
    using part_name_inj_on [OF assms(3), of fn] assms(5) by simp
  from upload_merge [OF assms(1,2,8,9,7) inj assms(4,6), of ?pl]
  obtain cs' where r: "process_all p (map (\<lambda>i. (i, ?pl i)) order) cs = (Inr (), cs')"
    and st: "\<forall>i\<in>set order. stored cs' (part_name fn i) = ?pl i"
    and c: "is_complete p cs' =
               Inr (int (length (concat payloads)) =
                    int (length (concat (map (stored cs') (sort (map (part_name fn) order))))))"
    and m: "int (length (concat payloads)) =
              int (length (concat (map (stored cs') (sort (map (part_name fn) order))))) \<longrightarrow>
               file_prop p cs' =
                 (Inr \<lparr>content = concat (map (stored cs') (sort (map (part_name fn) order))),
                       pos = length (concat (map (stored cs') (sort (map (part_name fn) order))))\<rparr>, cs')"
    by blast
  have so: "sort (map (part_name fn) order) = map (part_name fn) [1..<Suc ?N]"
  proof (rule sorted_distinct_set_unique)
    show "sorted (map (part_name fn) [1..<Suc ?N])" by (rule sorted_part_names [OF assms(3)])
    show "distinct (sort (map (part_name fn) order))" using inj assms(4) by (simp add: distinct_map)
    show "distinct (map (part_name fn) [1..<Suc ?N])"
      using part_name_inj_on [OF assms(3), of fn]
      by (simp add: distinct_map atLeastLessThanSuc_atLeastAtMost del: upt_Suc)
    show "set (sort (map (part_name fn) order)) = set (map (part_name fn) [1..<Suc ?N])"
      using assms(5) by (simp add: atLeastLessThanSuc_atLeastAtMost del: upt_Suc)
  qed simp
  have "map (stored cs') (map (part_name fn) [1..<Suc ?N]) = map ?pl [1..<Suc ?N]"
    using st assms(5) by (simp add: atLeastLessThanSuc_atLeastAtMost del: upt_Suc)
  then have pay: "map (stored cs') (sort (map (part_name fn) order)) = payloads"
    by (simp only: so map_nth_from_1)
  show ?thesis using r c m by (simp add: pay)
qed

subsection \<open>More than 9999 chunks\<close>

lemma zip_from_1: "zip [1..<Suc (length xs)] xs = map (\<lambda>i. (i, xs ! (i - 1))) [1..<Suc (length xs)]"
proof -
  let ?is = "[1..<Suc (length xs)]"
  have "zip ?is xs = zip ?is (map (\<lambda>i. xs ! (i - 1)) ?is)" by (simp only: map_nth_from_1)
  also have "\<dots> = map (\<lambda>i. (i, xs ! (i - 1))) ?is"
    by (simp only: zip_map2 zip_same_conv_map map_map) (simp del: upt_Suc)
  finally show ?thesis .
qed

lemma last_concat_map:
  "xs \<noteq> [] \<Longrightarrow> g (last xs) \<noteq> [] \<Longrightarrow> last (concat (map g xs)) = last (g (last xs))"
proof (induction xs)
  case Nil
  then show ?case by simp
next
  case (Cons a xs)
  show ?case
  proof (cases "xs = []")
    case True
    then show ?thesis by simp
  next
    case False
    then have l: "last (a # xs) = last xs" by simp
    have "g (last xs) \<noteq> []" using Cons.prems(2) l by simp
    moreover have "last xs \<in> set xs" using False by simp
    ultimately have ne: "concat (map g xs) \<noteq> []" by auto
    have "last (concat (map g xs)) = last (g (last xs))"
      using Cons.IH [OF False] Cons.prems(2) l by simp
    then show ?thesis using ne l by simp
  qed
qed

lemma sorted_le_last: "sorted xs \<Longrightarrow> x \<in> set xs \<Longrightarrow> x \<le> last xs"
  by (induction xs) auto

lemma length_concat_unit:
  "(\<And>x. x \<in> set xs \<Longrightarrow> length (g x) = 1) \<Longrightarrow> length (concat (map g xs)) = length xs"
  by (induction xs) simp_all

lemma last_sort_greatest:
  assumes "m \<in> set xs" and "\<And>x. x \<in> set xs \<Longrightarrow> x \<le> m"
  shows "last (sort xs) = (m :: 'a :: linorder)"
proof -
  have ne: "sort xs \<noteq> []" using assms(1) by (metis empty_iff list.set(1) set_sort)
  have "last (sort xs) \<in> set xs" using last_in_set [OF ne] by simp
  then have 1: "last (sort xs) \<le> m" by (rule assms(2))
  have "m \<in> set (sort xs)" using assms(1) by simp
  then have 2: "m \<le> last (sort xs)" by (intro sorted_le_last) simp_all
  show ?thesis using 1 2 by simp
qed

lemma length_many [simp]: "length many_payloads = 10000"
  by (simp add: many_payloads_def)

lemma many_nth: "i < 9999 \<Longrightarrow> many_payloads ! i = ''a''"
  by (simp add: many_payloads_def nth_append)

lemma many_nth_length: "i < 10000 \<Longrightarrow> length (many_payloads ! i) = 1"
  by (simp add: many_payloads_def nth_append)

lemma last_concat_many: "last (concat many_payloads) = CHR ''b''"
  by (simp add: many_payloads_def)

lemma digit_char_lit: "digit_char (Suc 0) = CHR ''1''" "digit_char 9 = CHR ''9''"
proof -
  have "(of_char (digit_char (Suc 0)) :: nat) = of_char CHR ''1''" by (simp add: digit_char_def)
  then show "digit_char (Suc 0) = CHR ''1''" by (simp only: of_char_eq_iff)
  have "(of_char (digit_char 9) :: nat) = of_char CHR ''9''" by (simp add: digit_char_def)
  then show "digit_char 9 = CHR ''9''" by (simp only: of_char_eq_iff)
qed

lemma decimal_10000: "decimal 10000 = ''10000''"
proof -
  have 1: "decimal (Suc 0) = [digit_char (Suc 0)]" by (simp add: decimal_lt10)
  have 2: "decimal 10 = [digit_char (Suc 0), digit_char 0]" using decimal_ge10 [of 10] by (simp add: 1)
  have 3: "decimal 100 = [digit_char (Suc 0), digit_char 0, digit_char 0]"
    using decimal_ge10 [of 100] by (simp add: 2)
  have 4: "decimal 1000 = [digit_char (Suc 0), digit_char 0, digit_char 0, digit_char 0]"
    using decimal_ge10 [of 1000] by (simp add: 3)
  have 5: "decimal 10000 = [digit_char (Suc 0), digit_char 0, digit_char 0, digit_char 0, digit_char 0]"
    using decimal_ge10 [of 10000] by (simp add: 4)
  show ?thesis by (simp add: 5 digit_char_lit digit_char_0)
qed

lemma decimal_9999: "zfill 4 (decimal 9999) = ''9999''"
proof -
  have "(9999::nat) < 10000" by simp
  from zfill4_decimal [OF this] show ?thesis by (simp add: digit_char_lit)
qed

lemma zfill4_10000: "zfill 4 ''10000'' = ''10000''"
  by (simp add: zfill_def)

lemma part_name_10000_less: "part_name fn 10000 < part_name fn 9999"
  by (simp only: part_name_def append_less_iff decimal_10000 decimal_9999 zfill4_10000) simp

lemma length_part_name: "i < 10000 \<Longrightarrow> length (part_name fn i) = length fn + 10"
  by (simp add: part_name_def zfill4_decimal chunk_suffix_def)

lemma length_part_name_10000: "length (part_name fn 10000) = length fn + 11"
  by (simp add: part_name_def decimal_10000 zfill4_10000 chunk_suffix_def)

lemma part_name_inj_on_10000: "inj_on (part_name fn) {1..10000}"
proof (rule inj_onI)
  fix i j assume a: "i \<in> {1..10000}" "j \<in> {1..10000}" "part_name fn i = part_name fn j"
  have l: "length (part_name fn i) = length (part_name fn j)" using a(3) by simp
  show "i = j"
  proof (cases "i = 10000")
    case True
    have "\<not> j < 10000" using l True length_part_name [of j fn] length_part_name_10000 [of fn] by auto
    then show ?thesis using a(2) True by simp
  next
    case False
    then have i: "i \<in> {1..9999}" using a(1) by simp
    have "\<not> j = 10000"
      using l i length_part_name [of i fn] length_part_name_10000 [of fn] by auto
    then have j: "j \<in> {1..9999}" using a(2) by simp
    show ?thesis using part_name_inj_on [of 9999 fn] i j a(3) by (simp add: inj_on_def)
  qed
qed

lemma part_name_le_9999: "i \<in> {1..10000} \<Longrightarrow> part_name fn i \<le> part_name fn 9999"
proof -
  assume a: "i \<in> {1..10000}"
  consider "i < 9999" | "i = 9999" | "i = 10000" using a by (simp, linarith)
  then show ?thesis
  proof cases
    case 1
    then have "part_name fn i < part_name fn 9999" by (intro part_name_less) simp_all
    then show ?thesis by simp
  next
    case 2
    then show ?thesis by simp
  next
    case 3
    then show ?thesis using part_name_10000_less [of fn] by simp
  qed
qed

text \<open>
  The claim as stated fails for 10000 chunks: the chunk number is padded to four
  digits, the name of chunk 10000 sorts before the name of chunk 9999, and the merged
  bytes end with the payload of chunk 9999, not with that of chunk 10000.
\<close>

theorem ten_thousand_chunks_merged_out_of_order:
  "py_int (resumableTotalSize (request ''f'' ''10000'' ''1'' ''1'')) = Inr (int (length (concat many_payloads)))
   \<and> fst (process_all (request ''f'' ''10000'' ''1'' ''1'')
           (zip [1..<Suc (length many_payloads)] many_payloads) (reliable [])) = Inr ()
   \<and> is_complete (request ''f'' ''10000'' ''1'' ''1'')
        (snd (process_all (request ''f'' ''10000'' ''1'' ''1'')
           (zip [1..<Suc (length many_payloads)] many_payloads) (reliable []))) = Inr True
   \<and> \<not> isl (fst (file_prop (request ''f'' ''10000'' ''1'' ''1'')
        (snd (process_all (request ''f'' ''10000'' ''1'' ''1'')
           (zip [1..<Suc (length many_payloads)] many_payloads) (reliable [])))))
   \<and> content (projr (fst (file_prop (request ''f'' ''10000'' ''1'' ''1'')
        (snd (process_all (request ''f'' ''10000'' ''1'' ''1'')
           (zip [1..<Suc (length many_payloads)] many_payloads) (reliable []))))))
       \<noteq> concat many_payloads"
proof -
  let ?P = "request ''f'' ''10000'' ''1'' ''1''"
  let ?fn = "''10000_f''"
  let ?os = "[1..<Suc (length many_payloads)]"
  let ?pl = "\<lambda>i. many_payloads ! (i - 1)"
  let ?cs = "reliable []"
  have lc: "length (concat many_payloads) = 10000"
    using length_concat_unit [of many_payloads "\<lambda>x. x"]
    by (simp add: many_payloads_def nth_append)
  have f: "filename ?P = Inr ?fn" by (simp add: request_def filename_def)
  have nb: "CHR ''['' \<notin> set ?fn" by simp
  have sf: "save_faults ?cs = []" and rf: "read_faults ?cs = []" by (simp_all add: reliable_def)
  have fresh: "\<forall>n\<in>set (storage_listdir ?cs). \<not> fnmatch n (?fn @ chunk_suffix @ ''*'')"
    by (simp add: storage_listdir_def reliable_def)
  have so: "set ?os = {1..10000}"
    by (simp only: set_upt length_many atLeastLessThanSuc_atLeastAtMost)
  have inj: "inj_on (part_name ?fn) (set ?os)" by (simp only: so part_name_inj_on_10000)
  have d: "distinct ?os" by (rule distinct_upt)
  have tot: "py_int (resumableTotalSize ?P) = Inr 10000"
    by (simp add: request_def py_int_eval)
  have arr: "zip ?os many_payloads = map (\<lambda>i. (i, ?pl i)) ?os" by (rule zip_from_1)
  let ?names = "sort (map (part_name ?fn) ?os)"
  from upload_merge [OF f nb sf rf fresh inj d tot, of ?pl]
  obtain cs' where r: "process_all ?P (map (\<lambda>i. (i, ?pl i)) ?os) ?cs = (Inr (), cs')"
    and st: "\<forall>i\<in>set ?os. stored cs' (part_name ?fn i) = ?pl i"
    and c: "is_complete ?P cs' = Inr (10000 = int (length (concat (map (stored cs') ?names))))"
    and m: "10000 = int (length (concat (map (stored cs') ?names))) \<longrightarrow>
               file_prop ?P cs' =
                 (Inr \<lparr>content = concat (map (stored cs') ?names),
                       pos = length (concat (map (stored cs') ?names))\<rparr>, cs')"
    by blast
  have unit: "\<And>x. x \<in> set ?names \<Longrightarrow> length (stored cs' x) = 1"
  proof -
    fix x assume "x \<in> set ?names"
    then obtain i where i: "i \<in> {1..10000}" "x = part_name ?fn i"
      using so by (auto simp del: upt_Suc)
    have "stored cs' x = ?pl i" using st i so by (simp del: upt_Suc)
    moreover have "i - 1 < 10000" using i(1) by auto
    then have "length (?pl i) = 1" by (rule many_nth_length)
    ultimately show "length (stored cs' x) = 1" by simp
  qed
  have len: "length (concat (map (stored cs') ?names)) = 10000"
    using length_concat_unit [of ?names "stored cs'", OF unit] by (simp del: upt_Suc)
  have comp: "is_complete ?P cs' = Inr True" using c len by simp
  have mer: "file_prop ?P cs' =
                 (Inr \<lparr>content = concat (map (stored cs') ?names),
                       pos = length (concat (map (stored cs') ?names))\<rparr>, cs')"
    using m len by simp
  have la: "last ?names = part_name ?fn 9999"
  proof (rule last_sort_greatest)
    show "part_name ?fn 9999 \<in> set (map (part_name ?fn) ?os)"
      using so by (simp del: upt_Suc)
    fix x assume "x \<in> set (map (part_name ?fn) ?os)"
    then obtain i where "i \<in> {1..10000}" "x = part_name ?fn i"
      using so by (auto simp del: upt_Suc)
    then show "x \<le> part_name ?fn 9999" using part_name_le_9999 [of i ?fn] by simp
  qed
  have s9: "stored cs' (part_name ?fn 9999) = ''a''"
  proof -
    have "(9999::nat) \<in> set ?os" using so by (simp del: upt_Suc)
    then have "stored cs' (part_name ?fn 9999) = ?pl 9999" using st by blast
    then show ?thesis by (simp add: many_nth)
  qed
  have ne: "?names \<noteq> []"
  proof
    assume "?names = []"
    then have "length ?names = 0" by simp
    then show False by (simp del: upt_Suc)
  qed
  have g: "stored cs' (last ?names) = ''a''" by (simp only: la s9)
  have g2: "stored cs' (last ?names) \<noteq> []" by (simp only: g) simp
  have "last (concat (map (stored cs') ?names)) = last (stored cs' (last ?names))"
    using ne g2 by (rule last_concat_map)
  then have "last (concat (map (stored cs') ?names)) = CHR ''a''" by (simp only: g) simp
  then have neq: "concat (map (stored cs') ?names) \<noteq> concat many_payloads"
    using last_concat_many by auto
  have r': "process_all ?P (zip ?os many_payloads) ?cs = (Inr (), cs')" by (simp only: arr r)
  show ?thesis using r' comp mer neq tot lc by (simp del: upt_Suc length_many)
qed

lemma digit_char_2: "digit_char 2 = CHR ''2''"
proof -
  have "(of_char (digit_char 2) :: nat) = of_char CHR ''2''" by (simp add: digit_char_def)
  then show ?thesis by (simp only: of_char_eq_iff)
qed

theorem upload_in_any_order_merges_by_index_witness:
  "process_all (request ''f.bin'' ''10'' ''1'' ''6'') [(2, ''ghij''), (1, ''abcdef'')] (reliable [(''other'', ''zz'')])
     = (Inr (), reliable [(''10_f.bin_part_0001'', ''abcdef''), (''10_f.bin_part_0002'', ''ghij''), (''other'', ''zz'')])
   \<and> is_complete (request ''f.bin'' ''10'' ''1'' ''6'')
       (reliable [(''10_f.bin_part_0001'', ''abcdef''), (''10_f.bin_part_0002'', ''ghij''), (''other'', ''zz'')])
     = Inr True
   \<and> file_prop (request ''f.bin'' ''10'' ''1'' ''6'')
       (reliable [(''10_f.bin_part_0001'', ''abcdef''), (''10_f.bin_part_0002'', ''ghij''), (''other'', ''zz'')])
     = (Inr \<lparr>content = ''abcdefghij'', pos = 10\<rparr>,
        reliable [(''10_f.bin_part_0001'', ''abcdef''), (''10_f.bin_part_0002'', ''ghij''), (''other'', ''zz'')])"
proof -
  let ?p = "request ''f.bin'' ''10'' ''1'' ''6''"
  let ?cs = "reliable [(''other'', ''zz'')]"
  let ?cs2 = "reliable [(''10_f.bin_part_0001'', ''abcdef''), (''10_f.bin_part_0002'', ''ghij''), (''other'', ''zz'')]"
  let ?pay = "[''abcdef'', ''ghij'']"
  have f: "filename ?p = Inr ''10_f.bin''" by (simp add: request_def filename_def)
  have nb: "CHR ''['' \<notin> set ''10_f.bin''" by simp
  have n: "length ?pay \<le> 9999" by simp
  have d: "distinct [2, 1 :: nat]" by simp
  have s: "set [2, 1 :: nat] = {1..length ?pay}" by auto
  have t: "py_int (resumableTotalSize ?p) = Inr (int (length (concat ?pay)))"
    by (simp add: request_def py_int_eval)
  have fr: "\<forall>n\<in>set (storage_listdir ?cs). \<not> fnmatch n (''10_f.bin'' @ chunk_suffix @ ''*'')"
    by (simp add: storage_listdir_def reliable_def fnmatch_def chunk_suffix_def)
  have sf: "save_faults ?cs = []" and rf: "read_faults ?cs = []" by (simp_all add: reliable_def)
  have e: "process_all ?p [(2, ''ghij''), (1, ''abcdef'')] ?cs = (Inr (), ?cs2)"
    by (simp add: process_chunk_def chunk_request_def current_chunk_name_def filename_def request_def
        reliable_def storage_exists_def storage_save_def storage_delete_def chunk_suffix_def
        zfill_def decimal_lt10 digit_char_lit digit_char_2 replicate_small)
  from upload_in_any_order_merges_by_index [OF f nb n d s t fr sf rf]
  obtain cs' where r: "process_all ?p (map (\<lambda>i. (i, ?pay ! (i - 1))) [2, 1]) ?cs = (Inr (), cs')"
    and c: "is_complete ?p cs' = Inr True"
    and m: "file_prop ?p cs' = (Inr \<lparr>content = concat ?pay, pos = length (concat ?pay)\<rparr>, cs')"
    by blast
  have "cs' = ?cs2" using r e by simp
  then show ?thesis using e c m by simp
qed

subsection \<open>Sending a chunk again\<close>

lemma process_chunk_repeat:
  assumes "current_chunk_name q = Inr name" and "save_faults cs = []"
  shows "process_chunk q new (snd (process_chunk q old cs)) = process_chunk q new cs"
proof -
  let ?cs1 = "cs\<lparr>files := (name, old) # filter (\<lambda>kv. fst kv \<noteq> name) (files cs)\<rparr>"
  have 1: "process_chunk q old cs = (Inr (), ?cs1)" by (rule process_chunk_ok [OF assms])
  have s: "save_faults ?cs1 = []" using assms(2) by simp
  show ?thesis
    by (simp add: 1 process_chunk_ok [OF assms(1) s] process_chunk_ok [OF assms])
qed

lemma count_list_insort: "count_list (insort x xs) k = count_list (x # xs) k"
  by (induction xs) auto

lemma count_list_sort: "count_list (sort xs) k = count_list xs k"
  by (induction xs) (simp_all add: count_list_insort)

text \<open>
  On a storage whose saves succeed, sending a chunk again with the same bytes leaves
  the storage and the size as they are, sending it with other bytes leaves the storage
  that sending only the new bytes would have left, with the new bytes under the chunk
  name and that name once in the storage. When the identity contains no \<^verbatim>\<open>[\<close> the
  name is also once in the listing of the upload's chunks.
\<close>

lemma process_chunk_overwrite:
  assumes "filename q = Inr fn" and "current_chunk_name q = Inr name" and "save_faults cs = []"
  shows "process_chunk q data (snd (process_chunk q data cs)) = process_chunk q data cs
       \<and> size_chunks q (snd (process_chunk q data (snd (process_chunk q data cs))))
           = size_chunks q (snd (process_chunk q data cs))
       \<and> process_chunk q new (snd (process_chunk q old cs)) = process_chunk q new cs
       \<and> map_of (files (snd (process_chunk q new (snd (process_chunk q old cs))))) name = Some new
       \<and> count_list (storage_listdir (snd (process_chunk q new (snd (process_chunk q old cs))))) name = 1
       \<and> (CHR ''['' \<notin> set fn \<longrightarrow>
            (\<exists>names. chunk_names q (snd (process_chunk q new (snd (process_chunk q old cs)))) = Inr names
               \<and> count_list names name = 1))"
proof -
  let ?cs2 = "cs\<lparr>files := (name, new) # filter (\<lambda>kv. fst kv \<noteq> name) (files cs)\<rparr>"
  have r: "\<And>a b. process_chunk q a (snd (process_chunk q b cs)) = process_chunk q a cs"
    by (rule process_chunk_repeat [OF assms(2,3)])
  have 2: "process_chunk q new cs = (Inr (), ?cs2)" by (rule process_chunk_ok [OF assms(2,3)])
  have n: "name = fn @ chunk_suffix @ zfill 4 (resumableChunkNumber q)"
    using assms(1,2) by (simp add: current_chunk_name_def)
  have c: "count_list (storage_listdir ?cs2) name = 1"
    by (simp add: storage_listdir_def count_list_filter_key)
  have l: "CHR ''['' \<notin> set fn \<longrightarrow>
            (\<exists>names. chunk_names q ?cs2 = Inr names \<and> count_list names name = 1)"
  proof
    assume "CHR ''['' \<notin> set fn"
    then have "CHR ''['' \<notin> set (fn @ chunk_suffix)" by (simp add: chunk_suffix_def)
    from fnmatch_own_prefix [OF this, of "zfill 4 (resumableChunkNumber q)"]
    have m: "fnmatch name (fn @ chunk_suffix @ ''*'')" by (simp add: fnmatch_def n)
    show "\<exists>names. chunk_names q ?cs2 = Inr names \<and> count_list names name = 1"
      using m c by (simp add: chunk_names_valid [OF assms(1)] count_list_filter count_list_sort)
  qed
  show ?thesis using c l by (simp add: r 2)
qed

text \<open>
  C4. For the file name \<^verbatim>\<open>a[b]\<close> the second half of the property fails: after
  chunk 1 has been sent twice the storage holds the new bytes under the chunk name and
  \<open>chunk_exists\<close> finds them there, but the pattern of the listing reads
  \<^verbatim>\<open>[b]\<close> as a character class, the listing of the upload's chunks is empty, and the
  upload of three bytes whose three bytes are stored is not complete.
\<close>

theorem bracket_filename_chunk_not_listed:
  "process_chunk (request ''a[b]'' ''3'' ''1'' ''3'') ''xyz''
      (snd (process_chunk (request ''a[b]'' ''3'' ''1'' ''3'') ''abc'' (reliable [])))
     = (Inr (), reliable [(''3_a[b]_part_0001'', ''xyz'')])
   \<and> chunk_exists (request ''a[b]'' ''3'' ''1'' ''3'') (reliable [(''3_a[b]_part_0001'', ''xyz'')]) = Inr True
   \<and> chunk_names (request ''a[b]'' ''3'' ''1'' ''3'') (reliable [(''3_a[b]_part_0001'', ''xyz'')]) = Inr []
   \<and> is_complete (request ''a[b]'' ''3'' ''1'' ''3'') (reliable [(''3_a[b]_part_0001'', ''xyz'')]) = Inr False"
proof (intro conjI)
  have n: "current_chunk_name (request ''a[b]'' ''3'' ''1'' ''3'') = Inr ''3_a[b]_part_0001''"
    by (simp add: current_chunk_name_def filename_def request_def chunk_suffix_def zfill_def replicate_small)
  show "process_chunk (request ''a[b]'' ''3'' ''1'' ''3'') ''xyz''
      (snd (process_chunk (request ''a[b]'' ''3'' ''1'' ''3'') ''abc'' (reliable [])))
     = (Inr (), reliable [(''3_a[b]_part_0001'', ''xyz'')])"
    by (simp add: process_chunk_def n reliable_def storage_exists_def storage_save_def storage_delete_def)
  show "chunk_exists (request ''a[b]'' ''3'' ''1'' ''3'') (reliable [(''3_a[b]_part_0001'', ''xyz'')]) = Inr True"
    by (simp add: chunk_exists_def n reliable_def storage_exists_def storage_size_def)
      (simp add: request_def py_int_eval)
  have t: "translate ''3_a[b]_part_*'' =
      [Lit CHR ''3'', Lit CHR ''_'', Lit CHR ''a'', Class ''b'', Lit CHR ''_'', Lit CHR ''p'',
       Lit CHR ''a'', Lit CHR ''r'', Lit CHR ''t'', Lit CHR ''_'', Star]"
    by (simp add: class_end_def class_text_def re_escape_in_def)
  have m: "\<not> fnmatch ''3_a[b]_part_0001'' ''3_a[b]_part_*''"
    by (simp only: fnmatch_def t) (simp add: re_class_def)
  have f: "filename (request ''a[b]'' ''3'' ''1'' ''3'') = Inr ''3_a[b]''"
    by (simp add: filename_def request_def)
  show c: "chunk_names (request ''a[b]'' ''3'' ''1'' ''3'') (reliable [(''3_a[b]_part_0001'', ''xyz'')]) = Inr []"
    using m by (simp add: chunk_names_valid [OF f] storage_listdir_def reliable_def chunk_suffix_def)
  show "is_complete (request ''a[b]'' ''3'' ''1'' ''3'') (reliable [(''3_a[b]_part_0001'', ''xyz'')]) = Inr False"
  proof -
    have s: "size_chunks (request ''a[b]'' ''3'' ''1'' ''3'') (reliable [(''3_a[b]_part_0001'', ''xyz'')]) = Inr 0"
      by (simp add: size_chunks_def c)
    have d: "py_int (resumableTotalSize (request ''a[b]'' ''3'' ''1'' ''3'')) = Inr 3"
      by (simp add: request_def py_int_eval)
    show ?thesis by (simp add: is_complete_def s d)
  qed
qed

end
